theory Spec2Isabelle
  imports Main "HOL-Library.AList" "HOL-Library.Multiset"
begin

section \<open>Data model\<close>

text \<open>
  The three object-kind modules of the repository (packages \<open>secretsengine\<close>, \<open>policy\<close>
  and \<open>audit\<close>) each declare a struct \<open>entry\<close>. The packages reuse the same names
  (\<open>entry\<close>, \<open>Key\<close>, \<open>Equals\<close>, \<open>Apply\<close>, \<open>asItems\<close>), so every definition below
  carries its package as a prefix. Go strings are byte sequences: \<open>string\<close>.
  A Go \<open>map[string]string\<close> is a partial function; the \<open>nil\<close> map reads as the
  empty one.
\<close>

text \<open>
  \<open>instance.Instance\<close> is declared in package \<open>toplevel/instance\<close>, outside the
  files modelled here; the modules read its
  field \<open>Address\<close> only.
\<close>

record Instance =
  Address :: string

record secretsengine_entry =
  se_Path :: string
  se_Type :: string
  se_Instance :: Instance
  se_Description :: string
  se_Options :: "string \<rightharpoonup> string"

record policy_entry =
  pol_Name :: string
  pol_Rules :: string
  pol_Type :: string
  pol_Instance :: Instance
  pol_Description :: string

record audit_entry =
  aud_Path :: string
  aud_Type :: string
  aud_Description :: string
  aud_Instance :: Instance
  aud_Options :: "string \<rightharpoonup> string"

text \<open>
  A value of Go's \<open>interface{}\<close>: the dynamic type is the constructor. The three
  \<open>entry\<close> types are distinct Go types although they share a name.
\<close>

datatype iface =
    SecretsEngineEntry secretsengine_entry
  | PolicyEntry policy_entry
  | AuditEntry audit_entry
  | StringValue string
  | IntValue int
  | BoolValue bool
  | NilValue

definition zero_Instance :: Instance where
  "zero_Instance = \<lparr>Address = []\<rparr>"

definition zero_secretsengine_entry :: secretsengine_entry where
  "zero_secretsengine_entry =
     \<lparr>se_Path = [], se_Type = [], se_Instance = zero_Instance, se_Description = [],
      se_Options = Map.empty\<rparr>"

definition zero_policy_entry :: policy_entry where
  "zero_policy_entry =
     \<lparr>pol_Name = [], pol_Rules = [], pol_Type = [], pol_Instance = zero_Instance,
      pol_Description = []\<rparr>"

definition zero_audit_entry :: audit_entry where
  "zero_audit_entry =
     \<lparr>aud_Path = [], aud_Type = [], aud_Description = [], aud_Instance = zero_Instance,
      aud_Options = Map.empty\<rparr>"

section \<open>Reconcilable-item contract of the three kinds\<close>

text \<open>
  The comma-ok type assertion \<open>entry, ok := i.(entry)\<close>: on a value of another dynamic
  type it yields the zero value and \<open>ok = false\<close>; it does not panic.
\<close>

definition assert_secretsengine_entry :: "iface \<Rightarrow> secretsengine_entry \<times> bool" where
  "assert_secretsengine_entry i =
     (case i of SecretsEngineEntry x \<Rightarrow> (x, True) | _ \<Rightarrow> (zero_secretsengine_entry, False))"

definition assert_policy_entry :: "iface \<Rightarrow> policy_entry \<times> bool" where
  "assert_policy_entry i =
     (case i of PolicyEntry x \<Rightarrow> (x, True) | _ \<Rightarrow> (zero_policy_entry, False))"

definition assert_audit_entry :: "iface \<Rightarrow> audit_entry \<times> bool" where
  "assert_audit_entry i =
     (case i of AuditEntry x \<Rightarrow> (x, True) | _ \<Rightarrow> (zero_audit_entry, False))"

definition secretsengine_Key :: "secretsengine_entry \<Rightarrow> string" where
  "secretsengine_Key e = se_Path e"

definition secretsengine_KeyForDescription :: "secretsengine_entry \<Rightarrow> string" where
  "secretsengine_KeyForDescription e = se_Description e"

definition secretsengine_KeyForType :: "secretsengine_entry \<Rightarrow> string" where
  "secretsengine_KeyForType e = se_Type e"

text \<open>\<open>ambiguousOptions\<close> copies the string options into a \<open>map[string]interface{}\<close>.\<close>

definition secretsengine_ambiguousOptions :: "secretsengine_entry \<Rightarrow> (string \<rightharpoonup> iface)" where
  "secretsengine_ambiguousOptions e = (\<lambda>k. map_option StringValue (se_Options e k))"

text \<open>
  \<open>vault.EqualPathNames\<close> and \<open>vault.OptionsEqual\<close> belong to package \<open>pkg/vault\<close>,
  which is outside the files modelled here; both are parameters of \<open>Equals\<close>.
\<close>

definition secretsengine_Equals ::
  "(string \<Rightarrow> string \<Rightarrow> bool) \<Rightarrow> ((string \<rightharpoonup> iface) \<Rightarrow> (string \<rightharpoonup> iface) \<Rightarrow> bool) \<Rightarrow>
   secretsengine_entry \<Rightarrow> iface \<Rightarrow> bool" where
  "secretsengine_Equals EqualPathNames OptionsEqual e i =
     (case assert_secretsengine_entry i of
        (entry, ok) \<Rightarrow>
          if \<not> ok then False
          else EqualPathNames (se_Path e) (se_Path entry) \<and>
               se_Type e = se_Type entry \<and>
               se_Description e = se_Description entry \<and>
               OptionsEqual (secretsengine_ambiguousOptions e) (secretsengine_ambiguousOptions entry))"

definition policy_Key :: "policy_entry \<Rightarrow> string" where
  "policy_Key e = pol_Name e"

definition policy_KeyForType :: "policy_entry \<Rightarrow> string" where
  "policy_KeyForType e = pol_Type e"

definition policy_KeyForDescription :: "policy_entry \<Rightarrow> string" where
  "policy_KeyForDescription e = pol_Description e"

definition policy_Equals :: "policy_entry \<Rightarrow> iface \<Rightarrow> bool" where
  "policy_Equals e i =
     (case assert_policy_entry i of
        (entry, ok) \<Rightarrow>
          if \<not> ok then False
          else pol_Name e = pol_Name entry \<and> pol_Rules e = pol_Rules entry)"

definition audit_Key :: "audit_entry \<Rightarrow> string" where
  "audit_Key e = aud_Path e"

definition audit_KeyForType :: "audit_entry \<Rightarrow> string" where
  "audit_KeyForType e = aud_Type e"

definition audit_KeyForDescription :: "audit_entry \<Rightarrow> string" where
  "audit_KeyForDescription e = aud_Description e"

definition audit_ambiguousOptions :: "audit_entry \<Rightarrow> (string \<rightharpoonup> iface)" where
  "audit_ambiguousOptions e = (\<lambda>k. map_option StringValue (aud_Options e k))"

definition audit_Equals ::
  "(string \<Rightarrow> string \<Rightarrow> bool) \<Rightarrow> ((string \<rightharpoonup> iface) \<Rightarrow> (string \<rightharpoonup> iface) \<Rightarrow> bool) \<Rightarrow>
   audit_entry \<Rightarrow> iface \<Rightarrow> bool" where
  "audit_Equals EqualPathNames OptionsEqual e i =
     (case assert_audit_entry i of
        (entry, ok) \<Rightarrow>
          if \<not> ok then False
          else EqualPathNames (aud_Path e) (aud_Path entry) \<and>
               aud_Type e = aud_Type entry \<and>
               aud_Description e = aud_Description entry \<and>
               OptionsEqual (audit_ambiguousOptions e) (audit_ambiguousOptions entry))"

section \<open>Protected objects\<close>

text \<open>Go's \<open>strings.HasPrefix\<close>.\<close>

definition HasPrefix :: "string \<Rightarrow> string \<Rightarrow> bool" where
  "HasPrefix s pre = (length pre \<le> length s \<and> take (length pre) s = pre)"

definition isDefaultMount :: "string \<Rightarrow> bool" where
  "isDefaultMount path =
     (if HasPrefix path ''cubbyhole/'' \<or> HasPrefix path ''identity/'' \<or>
         HasPrefix path ''secret/'' \<or> HasPrefix path ''sys/''
      then True else False)"

definition isDefaultPolicy :: "string \<Rightarrow> bool" where
  "isDefaultPolicy name = (name = ''root'' \<or> name = ''default'')"

section \<open>The Diff Engine\<close>

text \<open>
  Modelled from the spec: \<open>vault.DiffItems\<close> (package \<open>pkg/vault\<close>) is called by all
  three modules but is outside the files modelled here. The definitions below follow the
  algorithm of the specification, section 4.2: a lookup from key to item is built for
  \<open>observed\<close> (insertion ordered, a later item with the same key replacing the earlier
  one); each desired item is looked up by key: absent, it is appended to \<open>toCreate\<close>;
  present and not \<open>Equals\<close>, the desired item is appended to \<open>toUpdate\<close>; present and
  equal, nothing is output; a key that was found is consumed (removed from the lookup) in
  both of the latter cases, as the scenario of section 8 requires (\<open>b\<close> is updated and
  not deleted). What remains in the lookup is \<open>toDelete\<close>, as the observed items.

  The item type is a parameter, with the two operations of the item contract the engine
  uses (\<open>Key\<close> and \<open>Equals\<close>) passed as functions. The result is in the order in which
  the call sites bind it: \<open>(toBeWritten, toBeDeleted, toBeUpdated)\<close>.
\<close>

fun observed_lookup :: "('a \<Rightarrow> string) \<Rightarrow> 'a list \<Rightarrow> (string \<times> 'a) list \<Rightarrow> (string \<times> 'a) list" where
  "observed_lookup key [] lookup = lookup"
| "observed_lookup key (x # xs) lookup = observed_lookup key xs (AList.update (key x) x lookup)"

fun diff_desired ::
  "('a \<Rightarrow> string) \<Rightarrow> ('a \<Rightarrow> 'a \<Rightarrow> bool) \<Rightarrow> 'a list \<Rightarrow> (string \<times> 'a) list \<Rightarrow> 'a list \<Rightarrow> 'a list \<Rightarrow>
   'a list \<times> 'a list \<times> (string \<times> 'a) list" where
  "diff_desired key equals [] lookup toCreate toUpdate = (toCreate, toUpdate, lookup)"
| "diff_desired key equals (d # ds) lookup toCreate toUpdate =
     (case map_of lookup (key d) of
        None \<Rightarrow> diff_desired key equals ds lookup (toCreate @ [d]) toUpdate
      | Some ob \<Rightarrow>
          if equals d ob
          then diff_desired key equals ds (AList.delete (key d) lookup) toCreate toUpdate
          else diff_desired key equals ds (AList.delete (key d) lookup) toCreate (toUpdate @ [d]))"

definition DiffItems ::
  "('a \<Rightarrow> string) \<Rightarrow> ('a \<Rightarrow> 'a \<Rightarrow> bool) \<Rightarrow> 'a list \<Rightarrow> 'a list \<Rightarrow> 'a list \<times> 'a list \<times> 'a list" where
  "DiffItems key equals desired observed =
     (case diff_desired key equals desired (observed_lookup key observed []) [] [] of
        (toCreate, toUpdate, remaining) \<Rightarrow> (toCreate, map snd remaining, toUpdate))"

section \<open>Remote calls, log lines and process exit\<close>

text \<open>
  The structs of the Vault client library that the modules pass to, or receive from, the
  remote-call wrappers; only the fields the modules touch.
\<close>

record MountOutput =
  mo_Type :: string
  mo_Description :: string
  mo_Options :: "string \<rightharpoonup> string"

record MountInput =
  mi_Type :: string
  mi_Description :: string
  mi_Options :: "string \<rightharpoonup> string"

record MountConfigInput =
  mci_Description :: "string option"

record Audit =
  au_Path :: string
  au_Type :: string
  au_Description :: string
  au_Options :: "string \<rightharpoonup> string"

record EnableAuditOptions =
  eao_Type :: string
  eao_Description :: string
  eao_Options :: "string \<rightharpoonup> string"

text \<open>
  What \<open>Apply\<close> does to the outside is recorded as a trace: every call of a wrapper of
  package \<open>pkg/vault\<close> with its arguments (the first one is the instance address), and
  every \<open>Info\<close> log line with its fields.
\<close>

datatype event =
    CallListSecretsEngines string
  | CallEnableSecretsEngine string string MountInput
  | CallUpdateSecretsEngine string string MountConfigInput
  | CallDisableSecretsEngine string string
  | CallListVaultPolicies string
  | CallGetVaultPolicy string string
  | CallPutVaultPolicy string string string
  | CallDeleteVaultPolicy string string
  | CallListAuditDevices string
  | CallEnableAuditDevice string string EnableAuditOptions
  | CallDisableAuditDevice string string
  | CallAddInvalid string
  | CallRemoveInstanceFromReconciliation
  | LogInfo string "(string \<times> string) list"

text \<open>
  How \<open>Apply\<close> can fail to return. \<open>Fatal\<close>: \<open>log.WithError(err).Fatal(msg)\<close> ends the
  process (message and error). \<open>Blocked\<close>: a unit of work waits for ever for a slot of
  the worker pool.
\<close>

datatype halt = Fatal string string | Blocked

text \<open>The calls that change a target instance.\<close>

fun is_mutation :: "event \<Rightarrow> bool" where
  "is_mutation (CallEnableSecretsEngine _ _ _) = True"
| "is_mutation (CallUpdateSecretsEngine _ _ _) = True"
| "is_mutation (CallDisableSecretsEngine _ _) = True"
| "is_mutation (CallPutVaultPolicy _ _ _) = True"
| "is_mutation (CallDeleteVaultPolicy _ _) = True"
| "is_mutation (CallEnableAuditDevice _ _ _) = True"
| "is_mutation (CallDisableAuditDevice _ _) = True"
| "is_mutation _ = False"

text \<open>The instance a remote operation (read or write) is issued against.\<close>

fun remote_instance :: "event \<Rightarrow> string option" where
  "remote_instance (CallListSecretsEngines a) = Some a"
| "remote_instance (CallEnableSecretsEngine a _ _) = Some a"
| "remote_instance (CallUpdateSecretsEngine a _ _) = Some a"
| "remote_instance (CallDisableSecretsEngine a _) = Some a"
| "remote_instance (CallListVaultPolicies a) = Some a"
| "remote_instance (CallGetVaultPolicy a _) = Some a"
| "remote_instance (CallPutVaultPolicy a _ _) = Some a"
| "remote_instance (CallDeleteVaultPolicy a _) = Some a"
| "remote_instance (CallListAuditDevices a) = Some a"
| "remote_instance (CallEnableAuditDevice a _ _) = Some a"
| "remote_instance (CallDisableAuditDevice a _) = Some a"
| "remote_instance _ = None"

section \<open>Helpers shared by the three modules\<close>

text \<open>Reading a Go \<open>map[string][]T\<close> at a missing key gives the \<open>nil\<close> slice.\<close>

definition slice_at :: "(string \<rightharpoonup> 'a list) \<Rightarrow> string \<Rightarrow> 'a list" where
  "slice_at m k = (case m k of None \<Rightarrow> [] | Some xs \<Rightarrow> xs)"

text \<open>
  The first loop of every \<open>Apply\<close>:
  \<open>m[e.Instance.Address] = append(m[e.Instance.Address], e)\<close>.
\<close>

fun instancesToDesired :: "('e \<Rightarrow> string) \<Rightarrow> 'e list \<Rightarrow> (string \<rightharpoonup> 'e list) \<Rightarrow> (string \<rightharpoonup> 'e list)" where
  "instancesToDesired address [] m = m"
| "instancesToDesired address (e # es) m =
     instancesToDesired address es (m(address e \<mapsto> slice_at m (address e) @ [e]))"

text \<open>\<open>asItems\<close> (the same in the three packages) wraps each entry as a \<open>vault.Item\<close>.\<close>

definition asItems :: "'e list \<Rightarrow> 'e list" where
  "asItems xs = fold (\<lambda>x items. items @ [x]) xs []"

text \<open>
  Orders the program does not fix: the order in which \<open>range\<close> visits a Go map, and the
  order in which the goroutines of a fan-out reach their critical section. Such an order
  is an input of the model: a list of choices, each picking the next element among those
  still left (when the choices run out the rest keeps its order).
\<close>

fun permute :: "nat list \<Rightarrow> 'a list \<Rightarrow> 'a list" where
  "permute [] xs = xs"
| "permute (c # cs) xs =
     (if xs = [] then []
      else let i = c mod length xs
           in xs ! i # permute cs (take i xs @ drop (Suc i) xs))"

section \<open>Package secretsengine\<close>

text \<open>
  The remote-call wrappers of package \<open>pkg/vault\<close> (\<open>ListSecretsEngines\<close>,
  \<open>EnableSecretsEngine\<close>, \<open>UpdateSecretsEngine\<close>, \<open>DisableSecretsEngine\<close>, and those
  of the policy module below) are outside the files modelled here. At their call sites
  they return no error value. This section and the next describe the runs in which every
  wrapper call comes back: a wrapper that returns a value is a function of the trace so
  far and of its arguments, and a wrapper that returns nothing only adds its call to the
  trace. The runs in which a wrapper call ends the process are the subject of the section
  on wrapper calls that end the process.

  What else \<open>Apply\<close> takes from outside this file is collected in a record:
  \<open>yaml.Unmarshal\<close> into the entry list (\<open>Inl\<close> the decode error), the list
  \<open>instance.InstanceAddresses\<close>, and \<open>vault.DiffItems\<close> at the entry type.
  A map returned by a wrapper is given as the list of its pairs in the order in which
  the \<open>range\<close> loop over it visits them.
\<close>

record secretsengine_deps =
  se_Unmarshal :: "string \<Rightarrow> string + secretsengine_entry list"
  se_ListSecretsEngines :: "event list \<Rightarrow> string \<Rightarrow> (string \<times> MountOutput) list"
  se_InstanceAddresses :: "string list"
  se_DiffItems ::
    "secretsengine_entry list \<Rightarrow> secretsengine_entry list \<Rightarrow>
     secretsengine_entry list \<times> secretsengine_entry list \<times> secretsengine_entry list"

text \<open>The loop that lists the enabled engines once per address occurring in the entries.\<close>

fun secretsengine_list_loop ::
  "(event list \<Rightarrow> string \<Rightarrow> (string \<times> MountOutput) list) \<Rightarrow> secretsengine_entry list \<Rightarrow>
   (string \<rightharpoonup> (string \<times> MountOutput) list) \<Rightarrow> event list \<Rightarrow>
   (string \<rightharpoonup> (string \<times> MountOutput) list) \<times> event list" where
  "secretsengine_list_loop ListSecretsEngines [] enabled tr = (enabled, tr)"
| "secretsengine_list_loop ListSecretsEngines (e # es) enabled tr =
     (case enabled (Address (se_Instance e)) of
        Some _ \<Rightarrow> secretsengine_list_loop ListSecretsEngines es enabled tr
      | None \<Rightarrow>
          secretsengine_list_loop ListSecretsEngines es
            (enabled(Address (se_Instance e) \<mapsto> ListSecretsEngines tr (Address (se_Instance e))))
            (tr @ [CallListSecretsEngines (Address (se_Instance e))]))"

text \<open>
  \<open>instancesToExistingEngines[instance]\<close>: one entry per enabled engine of the instance,
  with the zero \<open>Instance\<close>. The outer \<open>range\<close> over the instances only fills separate
  keys of the result, so its order is immaterial.
\<close>

definition secretsengine_existing ::
  "(string \<rightharpoonup> (string \<times> MountOutput) list) \<Rightarrow> string \<Rightarrow> secretsengine_entry list" where
  "secretsengine_existing enabled instance =
     map (\<lambda>(path, engine).
            \<lparr>se_Path = path, se_Type = mo_Type engine, se_Instance = zero_Instance,
             se_Description = mo_Description engine, se_Options = mo_Options engine\<rparr>)
         (slice_at enabled instance)"

text \<open>The body of the reconcile loop, for one instance.\<close>

definition secretsengine_reconcile ::
  "(secretsengine_entry list \<Rightarrow> secretsengine_entry list \<Rightarrow>
     secretsengine_entry list \<times> secretsengine_entry list \<times> secretsengine_entry list) \<Rightarrow>
   (string \<Rightarrow> secretsengine_entry list) \<Rightarrow> (string \<Rightarrow> secretsengine_entry list) \<Rightarrow> bool \<Rightarrow>
   string \<Rightarrow> event list \<Rightarrow> event list" where
  "secretsengine_reconcile diffItems desired existing dryRun instance tr =
     (case diffItems (asItems (desired instance)) (asItems (existing instance)) of
        (toBeWritten, toBeDeleted, toBeUpdated) \<Rightarrow>
          if dryRun then
            let tr1 = fold (\<lambda>w t. t @ [LogInfo ''[Dry Run] [Vault Secrets engine] secrets-engine to be enabled''
                                          [(''path'', secretsengine_Key w), (''type'', se_Type w)]])
                        toBeWritten tr;
                tr2 = fold (\<lambda>u t. t @ [LogInfo ''[Dry Run] [Vault Secrets engine] secrets-engine to be updated''
                                          [(''path'', secretsengine_Key u), (''type'', se_Type u)]])
                        toBeUpdated tr1
            in fold (\<lambda>d t. if \<not> isDefaultMount (secretsengine_Key d)
                            then t @ [LogInfo ''[Dry Run] [Vault Secrets engine] secrets-engine to be disabled''
                                        [(''path'', secretsengine_Key d), (''type'', se_Type d)]]
                            else t)
                 toBeDeleted tr2
          else
            let tr1 = fold (\<lambda>ent t. t @ [CallEnableSecretsEngine instance (se_Path ent)
                                            \<lparr>mi_Type = se_Type ent, mi_Description = se_Description ent,
                                             mi_Options = se_Options ent\<rparr>])
                        toBeWritten tr;
                tr2 = fold (\<lambda>ent t. t @ [CallUpdateSecretsEngine instance (se_Path ent)
                                            \<lparr>mci_Description = Some (se_Description ent)\<rparr>])
                        toBeUpdated tr1
            in fold (\<lambda>ent t. if \<not> isDefaultMount (se_Path ent)
                              then t @ [CallDisableSecretsEngine instance (se_Path ent)]
                              else t)
                 toBeDeleted tr2)"

text \<open>
  \<open>Apply\<close>: \<open>Inl\<close> when it does not return, otherwise the trace at return.
  \<open>threadPoolSize\<close> is not used by this module.
\<close>

definition secretsengine_Apply ::
  "secretsengine_deps \<Rightarrow> string \<Rightarrow> bool \<Rightarrow> int \<Rightarrow> halt + event list" where
  "secretsengine_Apply deps entriesBytes dryRun threadPoolSize =
     (case se_Unmarshal deps entriesBytes of
        Inl err \<Rightarrow>
          Inl (Fatal ''[Vault Secrets engine] failed to decode secrets engines configuration'' err)
      | Inr entries \<Rightarrow>
          (let instancesToDesiredEngines =
                 instancesToDesired (\<lambda>e. Address (se_Instance e)) entries Map.empty
           in case secretsengine_list_loop (se_ListSecretsEngines deps) entries Map.empty [] of
                (instancesToEnabledEngines, tr) \<Rightarrow>
                  Inr (fold (secretsengine_reconcile (se_DiffItems deps)
                               (slice_at instancesToDesiredEngines)
                               (secretsengine_existing instancesToEnabledEngines) dryRun)
                         (se_InstanceAddresses deps) tr)))"

section \<open>Package policy\<close>

text \<open>
  The collaborators of the policy module: as for the secrets engines, plus
  \<open>rangeOrder\<close>, the order in which \<open>range\<close> visits \<open>instancesToExistingPolicyNames\<close>,
  and \<open>completion\<close>, for each instance the order in which the goroutines of its fan-out
  take the mutex.

  Modelled from the spec: \<open>utils.NewBoundedWaitGroup\<close> is outside the files modelled here.
  By section 4.3 of the specification \<open>Add(1)\<close> lets the caller proceed only once fewer
  than \<open>threadPoolSize\<close> units are outstanding, and \<open>Wait\<close> returns only when every unit
  that was added has called \<open>Done\<close>. A goroutine always reaches its deferred \<open>Done\<close>,
  so with a pool of size at least 1 every \<open>Add\<close> proceeds in the end and at the end of
  a fan-out every goroutine has appended its entry, in some order; with a size below 1
  (a caller error by section 6) the first \<open>Add\<close> never proceeds. A goroutine is
  linearised at its critical section: its call of \<open>GetVaultPolicy\<close> and its append are
  one step.
\<close>

record policy_deps =
  pol_Unmarshal :: "string \<Rightarrow> string + policy_entry list"
  pol_ListVaultPolicies :: "event list \<Rightarrow> string \<Rightarrow> string list"
  pol_GetVaultPolicy :: "event list \<Rightarrow> string \<Rightarrow> string \<Rightarrow> string"
  pol_rangeOrder :: "nat list"
  pol_completion :: "string \<Rightarrow> nat list"
  pol_InstanceAddresses :: "string list"
  pol_DiffItems ::
    "policy_entry list \<Rightarrow> policy_entry list \<Rightarrow>
     policy_entry list \<times> policy_entry list \<times> policy_entry list"

text \<open>
  \<open>instancesToExistingPolicyNames\<close> is later iterated, so it is kept as the list of its
  pairs; a key is only ever added when it is absent.
\<close>

fun policy_list_loop ::
  "(event list \<Rightarrow> string \<Rightarrow> string list) \<Rightarrow> policy_entry list \<Rightarrow>
   (string \<times> string list) list \<Rightarrow> event list \<Rightarrow> (string \<times> string list) list \<times> event list" where
  "policy_list_loop ListVaultPolicies [] names tr = (names, tr)"
| "policy_list_loop ListVaultPolicies (e # es) names tr =
     (case map_of names (Address (pol_Instance e)) of
        Some _ \<Rightarrow> policy_list_loop ListVaultPolicies es names tr
      | None \<Rightarrow>
          policy_list_loop ListVaultPolicies es
            (names @ [(Address (pol_Instance e), ListVaultPolicies tr (Address (pol_Instance e)))])
            (tr @ [CallListVaultPolicies (Address (pol_Instance e))]))"

text \<open>One goroutine of the fan-out: fetch the body, append the entry under the mutex.\<close>

definition policy_worker ::
  "(event list \<Rightarrow> string \<Rightarrow> string \<Rightarrow> string) \<Rightarrow> string \<Rightarrow> string \<Rightarrow>
   (string \<rightharpoonup> policy_entry list) \<times> event list \<Rightarrow> (string \<rightharpoonup> policy_entry list) \<times> event list" where
  "policy_worker GetVaultPolicy instance name st =
     (case st of
        (existing, tr) \<Rightarrow>
          (existing(instance \<mapsto> slice_at existing instance @
             [\<lparr>pol_Name = name, pol_Rules = GetVaultPolicy tr instance name, pol_Type = [],
               pol_Instance = zero_Instance, pol_Description = []\<rparr>]),
           tr @ [CallGetVaultPolicy instance name]))"

text \<open>
  One iteration of the loop over \<open>instancesToExistingPolicyNames\<close>; \<open>None\<close> when the
  first \<open>bwg.Add(1)\<close> never proceeds.
\<close>

definition policy_fan_out ::
  "(event list \<Rightarrow> string \<Rightarrow> string \<Rightarrow> string) \<Rightarrow> (string \<Rightarrow> nat list) \<Rightarrow> int \<Rightarrow>
   string \<times> string list \<Rightarrow> (string \<rightharpoonup> policy_entry list) \<times> event list \<Rightarrow>
   ((string \<rightharpoonup> policy_entry list) \<times> event list) option" where
  "policy_fan_out GetVaultPolicy completion threadPoolSize p st =
     (case p of
        (instance, existingPolicyNames) \<Rightarrow>
          if existingPolicyNames \<noteq> []
          then (if threadPoolSize < 1 then None
                else Some (fold (policy_worker GetVaultPolicy instance)
                             (permute (completion instance) existingPolicyNames) st))
          else Some st)"

text \<open>The loop over \<open>instancesToExistingPolicyNames\<close>, in the order \<open>range\<close> takes.\<close>

fun policy_fan_out_loop ::
  "(event list \<Rightarrow> string \<Rightarrow> string \<Rightarrow> string) \<Rightarrow> (string \<Rightarrow> nat list) \<Rightarrow> int \<Rightarrow>
   (string \<times> string list) list \<Rightarrow> (string \<rightharpoonup> policy_entry list) \<times> event list \<Rightarrow>
   ((string \<rightharpoonup> policy_entry list) \<times> event list) option" where
  "policy_fan_out_loop GetVaultPolicy completion threadPoolSize [] st = Some st"
| "policy_fan_out_loop GetVaultPolicy completion threadPoolSize (p # ps) st =
     (case policy_fan_out GetVaultPolicy completion threadPoolSize p st of
        None \<Rightarrow> None
      | Some st' \<Rightarrow> policy_fan_out_loop GetVaultPolicy completion threadPoolSize ps st')"

definition policy_reconcile ::
  "(policy_entry list \<Rightarrow> policy_entry list \<Rightarrow>
     policy_entry list \<times> policy_entry list \<times> policy_entry list) \<Rightarrow>
   (string \<Rightarrow> policy_entry list) \<Rightarrow> (string \<Rightarrow> policy_entry list) \<Rightarrow> bool \<Rightarrow>
   string \<Rightarrow> event list \<Rightarrow> event list" where
  "policy_reconcile diffItems desired existing dryRun instance tr =
     (case diffItems (asItems (desired instance)) (asItems (existing instance)) of
        (toBeWritten, toBeDeleted, toBeUpdated) \<Rightarrow>
          if dryRun then
            let tr1 = fold (\<lambda>w t. t @ [LogInfo ''[Dry Run] [Vault Policy] policy to be written''
                                          [(''policy'', policy_Key w)]])
                        toBeWritten tr
            in fold (\<lambda>d t. if isDefaultPolicy (policy_Key d) then t
                            else t @ [LogInfo ''[Dry Run] [Vault Policy] policy to be deleted''
                                        [(''policy'', policy_Key d)]])
                 toBeDeleted tr1
          else
            let tr1 = fold (\<lambda>ent t. t @ [CallPutVaultPolicy instance (pol_Name ent) (pol_Rules ent)])
                        toBeWritten tr
            in fold (\<lambda>ent t. if isDefaultPolicy (pol_Name ent) then t
                              else t @ [CallDeleteVaultPolicy instance (pol_Name ent)])
                 toBeDeleted tr1)"

definition policy_Apply ::
  "policy_deps \<Rightarrow> string \<Rightarrow> bool \<Rightarrow> int \<Rightarrow> halt + event list" where
  "policy_Apply deps entriesBytes dryRun threadPoolSize =
     (case pol_Unmarshal deps entriesBytes of
        Inl err \<Rightarrow> Inl (Fatal ''[Vault Policy] failed to decode policies configuration'' err)
      | Inr entries \<Rightarrow>
          (let instancesToDesiredPolicies =
                 instancesToDesired (\<lambda>e. Address (pol_Instance e)) entries Map.empty
           in case policy_list_loop (pol_ListVaultPolicies deps) entries [] [] of
                (instancesToExistingPolicyNames, tr1) \<Rightarrow>
                  (case policy_fan_out_loop (pol_GetVaultPolicy deps) (pol_completion deps)
                          threadPoolSize
                          (permute (pol_rangeOrder deps) instancesToExistingPolicyNames)
                          (Map.empty, tr1) of
                     None \<Rightarrow> Inl Blocked
                   | Some (instancesToExistingPolicies, tr2) \<Rightarrow>
                       Inr (fold (policy_reconcile (pol_DiffItems deps)
                                    (slice_at instancesToDesiredPolicies)
                                    (slice_at instancesToExistingPolicies) dryRun)
                              (pol_InstanceAddresses deps) tr2))))"

section \<open>Package audit\<close>

text \<open>
  The wrappers the audit module calls return an error, which the module handles:
  \<open>ListAuditDevices\<close> gives \<open>Inl\<close> the error or the map of the enabled devices (as the
  list of its pairs, in the order of the \<open>range\<close> over it); \<open>EnableAuditDevice\<close> and
  \<open>DisableAuditDevice\<close> give \<open>Some\<close> error or \<open>None\<close> for \<open>nil\<close>. Each answer may
  depend on the trace so far. \<open>vault.InstanceAddresses\<close> is ranged over with one
  variable that is used as the address, so it is a map keyed by address:
  \<open>aud_InstanceAddresses\<close> lists its keys in the order visited. \<open>vault.AddInvalid\<close> and
  \<open>vault.RemoveInstanceFromReconciliation\<close> are recorded as calls.
\<close>

record audit_deps =
  aud_Unmarshal :: "string \<Rightarrow> string + audit_entry list"
  aud_ListAuditDevices :: "event list \<Rightarrow> string \<Rightarrow> string + (string \<times> Audit) list"
  aud_EnableAuditDevice :: "event list \<Rightarrow> string \<Rightarrow> string \<Rightarrow> EnableAuditOptions \<Rightarrow> string option"
  aud_DisableAuditDevice :: "event list \<Rightarrow> string \<Rightarrow> string \<Rightarrow> string option"
  aud_InstanceAddresses :: "string list"
  aud_DiffItems ::
    "audit_entry list \<Rightarrow> audit_entry list \<Rightarrow>
     audit_entry list \<times> audit_entry list \<times> audit_entry list"

text \<open>
  The body of the loop over \<open>toBeWritten\<close>. The \<open>continue\<close> after \<open>AddInvalid\<close> is the
  last statement of the body of this inner loop: the loop goes on with the next item.
\<close>

definition audit_enable ::
  "(event list \<Rightarrow> string \<Rightarrow> string \<Rightarrow> EnableAuditOptions \<Rightarrow> string option) \<Rightarrow> string \<Rightarrow>
   audit_entry \<Rightarrow> event list \<Rightarrow> event list" where
  "audit_enable EnableAuditDevice instance ent tr =
     (let opts = \<lparr>eao_Type = aud_Type ent, eao_Description = aud_Description ent,
                  eao_Options = aud_Options ent\<rparr>
      in case EnableAuditDevice tr instance (aud_Path ent) opts of
           Some err \<Rightarrow>
             tr @ [CallEnableAuditDevice instance (aud_Path ent) opts,
                   LogInfo ''[Vault Identity] failed to enable audit device''
                     [(''error'', err), (''instance'', instance), (''type'', aud_Type ent)],
                   CallAddInvalid instance]
         | None \<Rightarrow> tr @ [CallEnableAuditDevice instance (aud_Path ent) opts])"

text \<open>The body of the loop over \<open>toBeDeleted\<close>; every item is disabled.\<close>

definition audit_disable ::
  "(event list \<Rightarrow> string \<Rightarrow> string \<Rightarrow> string option) \<Rightarrow> string \<Rightarrow>
   audit_entry \<Rightarrow> event list \<Rightarrow> event list" where
  "audit_disable DisableAuditDevice instance ent tr =
     (case DisableAuditDevice tr instance (aud_Path ent) of
        Some err \<Rightarrow>
          tr @ [CallDisableAuditDevice instance (aud_Path ent),
                LogInfo ''[Vault Identity] failed to disable audit device''
                  [(''error'', err), (''instance'', instance), (''type'', aud_Type ent)],
                CallAddInvalid instance]
      | None \<Rightarrow> tr @ [CallDisableAuditDevice instance (aud_Path ent)])"

definition audit_existing :: "(string \<times> Audit) list \<Rightarrow> audit_entry list" where
  "audit_existing enabledAudits =
     fold (\<lambda>ka existingAduits. existingAduits @
             [\<lparr>aud_Path = au_Path (snd ka), aud_Type = au_Type (snd ka),
               aud_Description = au_Description (snd ka), aud_Instance = zero_Instance,
               aud_Options = au_Options (snd ka)\<rparr>])
       enabledAudits []"

text \<open>The body of the loop over the instances.\<close>

definition audit_reconcile ::
  "audit_deps \<Rightarrow> (string \<Rightarrow> audit_entry list) \<Rightarrow> bool \<Rightarrow> string \<Rightarrow> event list \<Rightarrow> event list" where
  "audit_reconcile deps desired dryRun instance tr =
     (case aud_ListAuditDevices deps tr instance of
        Inl err \<Rightarrow>
          tr @ [CallListAuditDevices instance,
                LogInfo ''[Vault Identity] failed to list audit device''
                  [(''error'', err), (''instance'', instance)],
                CallAddInvalid instance]
      | Inr enabledAudits \<Rightarrow>
          (case aud_DiffItems deps (asItems (desired instance))
                  (asItems (audit_existing enabledAudits)) of
             (toBeWritten, toBeDeleted, toBeUpdated) \<Rightarrow>
               if dryRun then
                 let tr1 = fold (\<lambda>w t. t @ [LogInfo ''[Dry Run] [Vault Audit] audit device to be enabled''
                                               [(''path'', audit_Key w), (''instance'', instance)]])
                             toBeWritten (tr @ [CallListAuditDevices instance])
                 in fold (\<lambda>d t. t @ [LogInfo ''[Dry Run] [Vault Audit] audit device to be disabled''
                                        [(''path'', audit_Key d), (''instance'', instance)]])
                      toBeDeleted tr1
               else
                 let tr1 = fold (audit_enable (aud_EnableAuditDevice deps) instance)
                             toBeWritten (tr @ [CallListAuditDevices instance])
                 in fold (audit_disable (aud_DisableAuditDevice deps) instance) toBeDeleted tr1))"

definition audit_Apply ::
  "audit_deps \<Rightarrow> string \<Rightarrow> bool \<Rightarrow> int \<Rightarrow> halt + event list" where
  "audit_Apply deps entriesBytes dryRun threadPoolSize =
     (case aud_Unmarshal deps entriesBytes of
        Inl err \<Rightarrow> Inl (Fatal ''[Vault Audit] failed to decode audit device configuration'' err)
      | Inr entries \<Rightarrow>
          (let instancesToDesiredAudits =
                 instancesToDesired (\<lambda>e. Address (aud_Instance e)) entries Map.empty
           in Inr (fold (audit_reconcile deps (slice_at instancesToDesiredAudits) dryRun)
                     (aud_InstanceAddresses deps) []
                   @ [CallRemoveInstanceFromReconciliation])))"

section \<open>Wrapper calls that end the process\<close>

text \<open>
  The wrappers called by the secrets-engine and policy modules return no error, so
  \<open>Apply\<close> has no code for a remote call that fails: what happens then is decided inside
  the wrapper, outside the files modelled here. The comment on the secrets-engine
  \<open>Apply\<close> reads \<open>This function exits the program if an error occurs.\<close> The two
  packages are therefore given a second time with one more parameter: \<open>ends tr e\<close> is
  \<open>Some h\<close> when the wrapper call \<open>e\<close>, made after the trace \<open>tr\<close>, ends the process
  with \<open>h\<close> instead of coming back, and \<open>None\<close> when it comes back. Each function
  below is the function of the same name above with \<open>ends\<close> consulted at every wrapper
  call.
\<close>












section \<open>Auxiliary notions for the proofs\<close>

text \<open>
  With unique desired keys the loop over \<open>desired\<close> has a closed form: consuming a key
  cannot change the lookup of a later desired item.
\<close>

definition is_create :: "('a \<Rightarrow> string) \<Rightarrow> (string \<times> 'a) list \<Rightarrow> 'a \<Rightarrow> bool" where
  "is_create key lookup d = (map_of lookup (key d) = None)"

definition is_update :: "('a \<Rightarrow> string) \<Rightarrow> ('a \<Rightarrow> 'a \<Rightarrow> bool) \<Rightarrow> (string \<times> 'a) list \<Rightarrow> 'a \<Rightarrow> bool" where
  "is_update key equals lookup d =
     (case map_of lookup (key d) of None \<Rightarrow> False | Some ob \<Rightarrow> \<not> equals d ob)"

text \<open>
  What a reconcile pass of the secrets-engine and of the policy module may add to the
  trace for one instance: a log line or a call against that instance, never a call of
  \<open>AddInvalid\<close>, no mutating call in a dry run, no disable or delete of a protected
  key, and nothing at all when the diff of the instance is empty.
\<close>

definition secretsengine_pass_event ::
  "secretsengine_deps \<Rightarrow> secretsengine_entry list \<Rightarrow> (string \<rightharpoonup> (string \<times> MountOutput) list) \<Rightarrow>
   bool \<Rightarrow> string \<Rightarrow> event \<Rightarrow> bool" where
  "secretsengine_pass_event deps entries enabled dryRun instance e =
     ((remote_instance e = Some instance \<or> remote_instance e = None) \<and>
      (\<forall>a. e \<noteq> CallAddInvalid a) \<and>
      (dryRun \<longrightarrow> \<not> is_mutation e) \<and>
      (\<forall>a p. e = CallDisableSecretsEngine a p \<longrightarrow> \<not> isDefaultMount p) \<and>
      se_DiffItems deps (filter (\<lambda>x. Address (se_Instance x) = instance) entries)
        (secretsengine_existing enabled instance) \<noteq> ([], [], []))"

definition policy_pass_event ::
  "policy_deps \<Rightarrow> policy_entry list \<Rightarrow> (string \<rightharpoonup> policy_entry list) \<Rightarrow>
   bool \<Rightarrow> string \<Rightarrow> event \<Rightarrow> bool" where
  "policy_pass_event deps entries existing dryRun instance e =
     ((remote_instance e = Some instance \<or> remote_instance e = None) \<and>
      (\<forall>a. e \<noteq> CallAddInvalid a) \<and>
      (dryRun \<longrightarrow> \<not> is_mutation e) \<and>
      (\<forall>a p. e = CallDeleteVaultPolicy a p \<longrightarrow> \<not> isDefaultPolicy p) \<and>
      pol_DiffItems deps (filter (\<lambda>x. Address (pol_Instance x) = instance) entries)
        (slice_at existing instance) \<noteq> ([], [], []))"

text \<open>
  \<open>audit_failure deps pre e = Some i\<close>: the event \<open>e\<close> is a remote call of the audit
  module against instance \<open>i\<close> that returns an error when it is issued after the trace
  \<open>pre\<close>.
\<close>

fun audit_failure :: "audit_deps \<Rightarrow> event list \<Rightarrow> event \<Rightarrow> string option" where
  "audit_failure deps pre (CallListAuditDevices i) =
     (case aud_ListAuditDevices deps pre i of Inl err \<Rightarrow> Some i | Inr _ \<Rightarrow> None)"
| "audit_failure deps pre (CallEnableAuditDevice i p opts) =
     (case aud_EnableAuditDevice deps pre i p opts of Some err \<Rightarrow> Some i | None \<Rightarrow> None)"
| "audit_failure deps pre (CallDisableAuditDevice i p) =
     (case aud_DisableAuditDevice deps pre i p of Some err \<Rightarrow> Some i | None \<Rightarrow> None)"
| "audit_failure deps pre _ = None"

text \<open>Every failed remote call in a trace is directly followed by its log line and \<open>AddInvalid\<close>.\<close>

definition failures_marked :: "audit_deps \<Rightarrow> event list \<Rightarrow> bool" where
  "failures_marked deps t =
     (\<forall>pre e rest i. t = pre @ e # rest \<longrightarrow> audit_failure deps pre e = Some i \<longrightarrow>
        (\<exists>msg flds rest'. rest = LogInfo msg flds # CallAddInvalid i # rest'))"

section \<open>Sample inputs\<close>

text \<open>
  Concrete collaborators on which the theorems below are instantiated. Two instances are
  configured, \<open>i1\<close> and \<open>i2\<close>; every desired entry is for \<open>i1\<close>; the input
  \<open>invalid\<close> fails to decode. The absent helpers \<open>EqualPathNames\<close> and
  \<open>OptionsEqual\<close> are instantiated by string equality and by a comparison that always
  succeeds, and the Diff Engine by \<open>DiffItems\<close>. For the audit module, listing the
  devices of \<open>i2\<close> fails and so does enabling the device \<open>a/\<close>.
\<close>

definition ex_se_entries :: "secretsengine_entry list" where
  "ex_se_entries =
     [\<lparr>se_Path = ''kv/'', se_Type = ''kv'', se_Instance = \<lparr>Address = ''i1''\<rparr>,
       se_Description = ''app secrets'', se_Options = Map.empty\<rparr>,
      \<lparr>se_Path = ''new/'', se_Type = ''kv'', se_Instance = \<lparr>Address = ''i1''\<rparr>,
       se_Description = ''new secrets'', se_Options = Map.empty\<rparr>]"

definition ex_mounts :: "(string \<times> MountOutput) list" where
  "ex_mounts =
     [(''sys/'', \<lparr>mo_Type = ''system'', mo_Description = [], mo_Options = Map.empty\<rparr>),
      (''old/'', \<lparr>mo_Type = ''kv'', mo_Description = [], mo_Options = Map.empty\<rparr>),
      (''kv/'', \<lparr>mo_Type = ''kv'', mo_Description = ''stale'', mo_Options = Map.empty\<rparr>)]"

definition ex_se_deps :: secretsengine_deps where
  "ex_se_deps =
     \<lparr>se_Unmarshal = (\<lambda>b. if b = ''invalid'' then Inl ''yaml: unmarshal error''
                          else Inr ex_se_entries),
      se_ListSecretsEngines = (\<lambda>tr a. ex_mounts),
      se_InstanceAddresses = [''i1'', ''i2''],
      se_DiffItems =
        DiffItems secretsengine_Key
          (\<lambda>d ob. secretsengine_Equals (=) (\<lambda>x y. True) d (SecretsEngineEntry ob))\<rparr>"

definition ex_pol_entries :: "policy_entry list" where
  "ex_pol_entries =
     [\<lparr>pol_Name = ''app'', pol_Rules = ''path a'', pol_Type = [],
       pol_Instance = \<lparr>Address = ''i1''\<rparr>, pol_Description = []\<rparr>,
      \<lparr>pol_Name = ''new'', pol_Rules = ''path n'', pol_Type = [],
       pol_Instance = \<lparr>Address = ''i1''\<rparr>, pol_Description = []\<rparr>]"

definition ex_pol_deps :: policy_deps where
  "ex_pol_deps =
     \<lparr>pol_Unmarshal = (\<lambda>b. if b = ''invalid'' then Inl ''yaml: unmarshal error''
                           else Inr ex_pol_entries),
      pol_ListVaultPolicies = (\<lambda>tr a. [''app'', ''root'', ''old'']),
      pol_GetVaultPolicy = (\<lambda>tr a nm. if nm = ''app'' then ''path b'' else ''path x''),
      pol_rangeOrder = [0],
      pol_completion = (\<lambda>a. [2, 0]),
      pol_InstanceAddresses = [''i1'', ''i2''],
      pol_DiffItems = DiffItems policy_Key (\<lambda>d ob. policy_Equals d (PolicyEntry ob))\<rparr>"

definition ex_aud_entries :: "audit_entry list" where
  "ex_aud_entries =
     [\<lparr>aud_Path = ''a/'', aud_Type = ''file'', aud_Description = [],
       aud_Instance = \<lparr>Address = ''i1''\<rparr>, aud_Options = Map.empty\<rparr>,
      \<lparr>aud_Path = ''b/'', aud_Type = ''file'', aud_Description = [],
       aud_Instance = \<lparr>Address = ''i1''\<rparr>, aud_Options = Map.empty\<rparr>]"

definition ex_aud_deps :: audit_deps where
  "ex_aud_deps =
     \<lparr>aud_Unmarshal = (\<lambda>b. if b = ''invalid'' then Inl ''yaml: unmarshal error''
                           else Inr ex_aud_entries),
      aud_ListAuditDevices =
        (\<lambda>tr a. if a = ''i2'' then Inl ''connection refused''
                 else Inr [(''sys/'', \<lparr>au_Path = ''sys/'', au_Type = ''file'', au_Description = [],
                                      au_Options = Map.empty\<rparr>)]),
      aud_EnableAuditDevice = (\<lambda>tr a p opts. if p = ''a/'' then Some ''permission denied'' else None),
      aud_DisableAuditDevice = (\<lambda>tr a p. None),
      aud_InstanceAddresses = [''i1'', ''i2''],
      aud_DiffItems =
        DiffItems audit_Key (\<lambda>d ob. audit_Equals (=) (\<lambda>x y. True) d (AuditEntry ob))\<rparr>"


section \<open>Properties of the Diff Engine\<close>

lemma update_fresh_key:
  "k \<notin> fst ` set al \<Longrightarrow> AList.update k v al = al @ [(k, v)]"
  by (induction al) auto

lemma observed_lookup_distinct:
  "distinct (map key xs) \<Longrightarrow> key ` set xs \<inter> fst ` set lookup = {} \<Longrightarrow>
   observed_lookup key xs lookup = lookup @ map (\<lambda>x. (key x, x)) xs"
proof (induction xs arbitrary: lookup)
  case Nil
  then show ?case by simp
next
  case (Cons x xs)
  have fresh: "key x \<notin> fst ` set lookup"
    using Cons.prems(2) by auto
  have step: "AList.update (key x) x lookup = lookup @ [(key x, x)]"
    using fresh by (rule update_fresh_key)
  have disj: "key ` set xs \<inter> fst ` set (lookup @ [(key x, x)]) = {}"
    using Cons.prems by auto
  have "observed_lookup key xs (lookup @ [(key x, x)]) =
        (lookup @ [(key x, x)]) @ map (\<lambda>x. (key x, x)) xs"
    using Cons.prems(1) disj by (intro Cons.IH) auto
  then show ?case
    using step by simp
qed

lemma delete_as_filter:
  "AList.delete k al = filter (\<lambda>p. fst p \<noteq> k) al"
  by (induction al) auto

lemma is_create_delete:
  "key d \<noteq> k \<Longrightarrow> is_create key (AList.delete k lookup) d = is_create key lookup d"
  by (simp add: is_create_def)

lemma is_update_delete:
  "key d \<noteq> k \<Longrightarrow> is_update key equals (AList.delete k lookup) d = is_update key equals lookup d"
  by (simp add: is_update_def)

lemma filter_create_delete:
  "k \<notin> key ` set ds \<Longrightarrow>
   filter (is_create key (AList.delete k lookup)) ds = filter (is_create key lookup) ds"
proof (rule filter_cong)
  fix x assume "k \<notin> key ` set ds" and "x \<in> set ds"
  then have "key x \<noteq> k" by auto
  then show "is_create key (AList.delete k lookup) x = is_create key lookup x"
    by (rule is_create_delete)
qed simp

lemma filter_update_delete:
  "k \<notin> key ` set ds \<Longrightarrow>
   filter (is_update key equals (AList.delete k lookup)) ds = filter (is_update key equals lookup) ds"
proof (rule filter_cong)
  fix x assume "k \<notin> key ` set ds" and "x \<in> set ds"
  then have "key x \<noteq> k" by auto
  then show "is_update key equals (AList.delete k lookup) x = is_update key equals lookup x"
    by (rule is_update_delete)
qed simp

lemma diff_desired_closed:
  "distinct (map key ds) \<Longrightarrow>
   diff_desired key equals ds lookup toCreate toUpdate =
     (toCreate @ filter (is_create key lookup) ds,
      toUpdate @ filter (is_update key equals lookup) ds,
      filter (\<lambda>p. fst p \<notin> key ` set ds) lookup)"
proof (induction ds arbitrary: lookup toCreate toUpdate)
  case Nil
  then show ?case by simp
next
  case (Cons d ds)
  have fresh: "key d \<notin> key ` set ds" and dist: "distinct (map key ds)"
    using Cons.prems by auto
  show ?case
  proof (cases "map_of lookup (key d)")
    case None
    have nokey: "\<And>p. p \<in> set lookup \<Longrightarrow> fst p \<noteq> key d"
      using None by (metis map_of_eq_None_iff image_eqI)
    have rem: "filter (\<lambda>p. fst p \<notin> key ` set ds) lookup =
               filter (\<lambda>p. fst p \<notin> key ` set (d # ds)) lookup"
      by (rule filter_cong) (auto dest: nokey)
    show ?thesis
      using None rem Cons.IH [OF dist, of lookup "toCreate @ [d]" toUpdate]
      by (simp add: is_create_def is_update_def)
  next
    case (Some ob)
    have rem: "filter (\<lambda>p. fst p \<notin> key ` set ds) (AList.delete (key d) lookup) =
               filter (\<lambda>p. fst p \<notin> key ` set (d # ds)) lookup"
      by (simp add: delete_as_filter conj_commute)
    have fc: "filter (is_create key (AList.delete (key d) lookup)) ds =
              filter (is_create key lookup) ds"
      using fresh by (rule filter_create_delete)
    have fu: "filter (is_update key equals (AList.delete (key d) lookup)) ds =
              filter (is_update key equals lookup) ds"
      using fresh by (rule filter_update_delete)
    have hd_create: "\<not> is_create key lookup d"
      using Some by (simp add: is_create_def)
    have hd_update: "is_update key equals lookup d = (\<not> equals d ob)"
      using Some by (simp add: is_update_def)
    show ?thesis
    proof (cases "equals d ob")
      case True
      show ?thesis
        using Some True hd_create hd_update
          Cons.IH [OF dist, of "AList.delete (key d) lookup" toCreate toUpdate]
        by (simp add: fc fu rem del: AList.delete_simps)
    next
      case False
      show ?thesis
        using Some False hd_create hd_update
          Cons.IH [OF dist, of "AList.delete (key d) lookup" toCreate "toUpdate @ [d]"]
        by (simp add: fc fu rem del: AList.delete_simps)
    qed
  qed
qed


lemma count_list_distinct:
  "distinct xs \<Longrightarrow> count_list xs x = (if x \<in> set xs then 1 else 0)"
  by (induction xs) auto

lemma map_of_keyed_None:
  "(map_of (map (\<lambda>x. (key x, x)) xs) k = None) = (k \<notin> key ` set xs)"
  by (induction xs) auto

lemma map_of_keyed_Some:
  "distinct (map key xs) \<Longrightarrow>
   (map_of (map (\<lambda>x. (key x, x)) xs) k = Some ob) = (ob \<in> set xs \<and> key ob = k)"
  by (induction xs) (auto simp: image_iff)

lemma is_update_keyed:
  assumes od: "distinct (map key observed)"
  shows "is_update key equals (map (\<lambda>x. (key x, x)) observed) d =
         (\<exists>ob \<in> set observed. key ob = key d \<and> \<not> equals d ob)"
proof (cases "map_of (map (\<lambda>x. (key x, x)) observed) (key d)")
  case None
  then have "key d \<notin> key ` set observed" by (simp add: map_of_keyed_None)
  then have "\<forall>ob \<in> set observed. key ob \<noteq> key d" by (auto simp: image_iff)
  then show ?thesis using None by (simp add: is_update_def)
next
  case (Some ob)
  then have ob: "ob \<in> set observed" "key ob = key d"
    using map_of_keyed_Some [OF od, of "key d" ob] by auto
  have uniq: "ob' = ob" if "ob' \<in> set observed" "key ob' = key d" for ob'
    using od ob that by (simp add: distinct_map inj_on_def)
  show ?thesis
  proof
    assume "is_update key equals (map (\<lambda>x. (key x, x)) observed) d"
    then have "\<not> equals d ob" using Some by (simp add: is_update_def)
    then show "\<exists>ob \<in> set observed. key ob = key d \<and> \<not> equals d ob"
      using ob by blast
  next
    assume "\<exists>ob \<in> set observed. key ob = key d \<and> \<not> equals d ob"
    then obtain ob' where "ob' \<in> set observed" "key ob' = key d" "\<not> equals d ob'" by blast
    then have "\<not> equals d ob" using uniq by blast
    then show "is_update key equals (map (\<lambda>x. (key x, x)) observed) d"
      using Some by (simp add: is_update_def)
  qed
qed

lemma remaining_keyed:
  "map snd (filter (\<lambda>p. fst p \<notin> K) (map (\<lambda>x. (key x, x)) observed)) =
   filter (\<lambda>ob. key ob \<notin> K) observed"
  by (induction observed) auto

lemma DiffItems_closed:
  assumes dd: "distinct (map key desired)" and od: "distinct (map key observed)"
  shows "DiffItems key equals desired observed =
     (filter (\<lambda>d. key d \<notin> key ` set observed) desired,
      filter (\<lambda>ob. key ob \<notin> key ` set desired) observed,
      filter (\<lambda>d. \<exists>ob \<in> set observed. key ob = key d \<and> \<not> equals d ob) desired)"
proof -
  let ?L = "map (\<lambda>x. (key x, x)) observed"
  have L: "observed_lookup key observed [] = ?L"
    using observed_lookup_distinct [OF od, of "[]"] by simp
  have c: "is_create key ?L = (\<lambda>d. key d \<notin> key ` set observed)"
    by (rule ext) (simp add: is_create_def map_of_keyed_None)
  have u: "is_update key equals ?L =
           (\<lambda>d. \<exists>ob \<in> set observed. key ob = key d \<and> \<not> equals d ob)"
    by (rule ext) (rule is_update_keyed [OF od])
  have "diff_desired key equals desired ?L [] [] =
     (filter (is_create key ?L) desired, filter (is_update key equals ?L) desired,
      filter (\<lambda>p. fst p \<notin> key ` set desired) ?L)"
    using diff_desired_closed [OF dd, of equals ?L "[]" "[]"] by simp
  then show ?thesis
    unfolding DiffItems_def L by (simp only: c u remaining_keyed prod.case)
qed


lemma keys_filter_create_update_disjoint:
  "key ` set (filter (\<lambda>d. key d \<notin> K) xs) \<inter>
   key ` set (filter (\<lambda>d. \<exists>ob \<in> set ys. key ob = key d \<and> Q d ob) xs) = {}"
  if "K = key ` set ys"
  using that by (auto simp: image_iff)

lemma keys_filter_notin: "key ` set (filter (\<lambda>x. key x \<notin> K) xs) \<inter> K = {}"
  by auto

lemma keys_filter_subset: "key ` set (filter P xs) \<subseteq> key ` set xs"
  by auto

text \<open>
  Claim C3. For desired and observed sequences with unique keys, the outputs of the Diff
  Engine partition the keys: no key occurs twice in, or in two of, \<open>toCreate\<close>,
  \<open>toUpdate\<close> and \<open>toDelete\<close>, and only input keys occur; an item whose key is only
  in \<open>observed\<close> is in \<open>toDelete\<close>, its key exactly once; an item whose key is only in
  \<open>desired\<close> is in \<open>toCreate\<close>, its key exactly once; and for a key present in both,
  the desired item is in \<open>toUpdate\<close> exactly when the pair is not \<open>Equals\<close>, and the key
  is in neither \<open>toCreate\<close> nor \<open>toDelete\<close> (so an equal pair is unchanged: in no
  output).
\<close>

theorem DiffItems_key_partition:
  assumes dd: "distinct (map key desired)" and od: "distinct (map key observed)"
    and res: "DiffItems key equals desired observed = (toCreate, toDelete, toUpdate)"
  shows "distinct (map key (toCreate @ toUpdate @ toDelete)) \<and>
         key ` set (toCreate @ toUpdate @ toDelete) \<subseteq> key ` set desired \<union> key ` set observed \<and>
         (\<forall>ob \<in> set observed. key ob \<notin> key ` set desired \<longrightarrow>
            ob \<in> set toDelete \<and> count_list (map key toDelete) (key ob) = 1) \<and>
         (\<forall>d \<in> set desired. key d \<notin> key ` set observed \<longrightarrow>
            d \<in> set toCreate \<and> count_list (map key toCreate) (key d) = 1) \<and>
         (\<forall>d \<in> set desired. \<forall>ob \<in> set observed. key d = key ob \<longrightarrow>
            (key d \<in> key ` set toUpdate \<longleftrightarrow> \<not> equals d ob) \<and>
            (d \<in> set toUpdate \<longleftrightarrow> \<not> equals d ob) \<and>
            key d \<notin> key ` set toCreate \<and> key d \<notin> key ` set toDelete)"
proof -
  have tc: "toCreate = filter (\<lambda>d. key d \<notin> key ` set observed) desired"
    and td: "toDelete = filter (\<lambda>ob. key ob \<notin> key ` set desired) observed"
    and tu: "toUpdate = filter (\<lambda>d. \<exists>ob \<in> set observed. key ob = key d \<and> \<not> equals d ob) desired"
    using res DiffItems_closed [OF dd od, of equals] by simp_all
  have dc: "distinct (map key toCreate)" and du: "distinct (map key toUpdate)"
    and ddl: "distinct (map key toDelete)"
    using dd od by (simp_all add: tc tu td distinct_map_filter)
  have cu: "key ` set toCreate \<inter> key ` set toUpdate = {}"
    unfolding tc tu by (rule keys_filter_create_update_disjoint) simp
  have sub_c: "key ` set toCreate \<subseteq> key ` set desired"
    unfolding tc by (rule keys_filter_subset)
  have sub_u: "key ` set toUpdate \<subseteq> key ` set desired"
    unfolding tu by (rule keys_filter_subset)
  have sub_d: "key ` set toDelete \<subseteq> key ` set observed"
    unfolding td by (rule keys_filter_subset)
  have del_fresh: "key ` set toDelete \<inter> key ` set desired = {}"
    unfolding td by (rule keys_filter_notin)
  have cre_fresh: "key ` set toCreate \<inter> key ` set observed = {}"
    unfolding tc by (rule keys_filter_notin)
  have cd: "key ` set toCreate \<inter> key ` set toDelete = {}"
    using sub_c del_fresh by blast
  have ud: "key ` set toUpdate \<inter> key ` set toDelete = {}"
    using sub_u del_fresh by blast
  have part1: "distinct (map key (toCreate @ toUpdate @ toDelete))"
    using dc du ddl cu cd ud by (simp add: Int_Un_distrib)
  have part2: "key ` set (toCreate @ toUpdate @ toDelete) \<subseteq> key ` set desired \<union> key ` set observed"
    using sub_c sub_u sub_d by (simp add: image_Un) blast
  have part3: "\<forall>ob \<in> set observed. key ob \<notin> key ` set desired \<longrightarrow>
            ob \<in> set toDelete \<and> count_list (map key toDelete) (key ob) = 1"
  proof (intro ballI impI)
    fix ob assume "ob \<in> set observed" "key ob \<notin> key ` set desired"
    then have m: "ob \<in> set toDelete" by (simp add: td)
    then have "key ob \<in> set (map key toDelete)" by simp
    then show "ob \<in> set toDelete \<and> count_list (map key toDelete) (key ob) = 1"
      using m ddl by (simp add: count_list_distinct)
  qed
  have part4: "\<forall>d \<in> set desired. key d \<notin> key ` set observed \<longrightarrow>
            d \<in> set toCreate \<and> count_list (map key toCreate) (key d) = 1"
  proof (intro ballI impI)
    fix d assume "d \<in> set desired" "key d \<notin> key ` set observed"
    then have m: "d \<in> set toCreate" by (simp add: tc)
    then have "key d \<in> set (map key toCreate)" by simp
    then show "d \<in> set toCreate \<and> count_list (map key toCreate) (key d) = 1"
      using m dc by (simp add: count_list_distinct)
  qed
  have part5: "\<forall>d \<in> set desired. \<forall>ob \<in> set observed. key d = key ob \<longrightarrow>
            (key d \<in> key ` set toUpdate \<longleftrightarrow> \<not> equals d ob) \<and>
            (d \<in> set toUpdate \<longleftrightarrow> \<not> equals d ob) \<and>
            key d \<notin> key ` set toCreate \<and> key d \<notin> key ` set toDelete"
  proof (intro ballI impI)
    fix d ob assume d: "d \<in> set desired" and ob: "ob \<in> set observed" and k: "key d = key ob"
    have uniq_o: "ob' = ob" if "ob' \<in> set observed" "key ob' = key d" for ob'
      using od ob k that by (simp add: distinct_map inj_on_def)
    have uniq_d: "d' = d" if "d' \<in> set desired" "key d' = key d" for d'
      using dd d that by (simp add: distinct_map inj_on_def)
    have in_u: "d \<in> set toUpdate \<longleftrightarrow> \<not> equals d ob"
      using d ob k uniq_o by (auto simp: tu)
    have key_u: "key d \<in> key ` set toUpdate \<longleftrightarrow> d \<in> set toUpdate"
    proof
      assume "key d \<in> key ` set toUpdate"
      then obtain d' where "d' \<in> set toUpdate" "key d' = key d" by (auto simp: image_iff)
      moreover from this have "d' \<in> set desired" by (simp add: tu)
      ultimately show "d \<in> set toUpdate" using uniq_d by blast
    qed simp
    have nc: "key d \<notin> key ` set toCreate"
      using ob k cre_fresh by (metis disjoint_iff imageI)
    have nd: "key d \<notin> key ` set toDelete"
      using d del_fresh by (metis disjoint_iff imageI)
    show "(key d \<in> key ` set toUpdate \<longleftrightarrow> \<not> equals d ob) \<and>
            (d \<in> set toUpdate \<longleftrightarrow> \<not> equals d ob) \<and>
            key d \<notin> key ` set toCreate \<and> key d \<notin> key ` set toDelete"
      using in_u key_u nc nd by blast
  qed
  show ?thesis
    using part1 part2 part3 part4 part5 by blast
qed

lemma DiffItems_scenario:
  "DiffItems fst (\<lambda>d ob. snd d = snd ob) [(''a'', 1::nat), (''b'', 2)] [(''b'', 9), (''c'', 3)]
   = ([(''a'', 1)], [(''c'', 3)], [(''b'', 2)])"
  by (simp add: DiffItems_def)

theorem DiffItems_key_partition_witness:
  "distinct (map fst [(''a'', 1::nat), (''b'', 2)]) \<and>
   distinct (map fst [(''b'', 9::nat), (''c'', 3)]) \<and>
   DiffItems fst (\<lambda>d ob. snd d = snd ob) [(''a'', 1::nat), (''b'', 2)] [(''b'', 9), (''c'', 3)]
     = ([(''a'', 1)], [(''c'', 3)], [(''b'', 2)]) \<and>
   distinct (map fst ([(''a'', 1::nat)] @ [(''b'', 2)] @ [(''c'', 3)])) \<and>
   (''c'', 3::nat) \<in> set [(''c'', 3)] \<and>
   (''a'', 1::nat) \<in> set [(''a'', 1)] \<and>
   ((''b'', 2::nat) \<in> set [(''b'', 2)] \<longleftrightarrow> \<not> snd (''b'', 2::nat) = snd (''b'', 9::nat))"
proof -
  have d1: "distinct (map fst [(''a'', 1::nat), (''b'', 2)])" by simp
  have d2: "distinct (map fst [(''b'', 9::nat), (''c'', 3)])" by simp
  show ?thesis
    using DiffItems_key_partition [OF d1 d2 DiffItems_scenario] d1 d2 DiffItems_scenario
    by simp
qed

section \<open>The equality contract\<close>

text \<open>
  Claim C7. For an entry \<open>e\<close> of any of the three kinds and a value \<open>i\<close> whose dynamic
  type is not \<open>e\<close>'s entry type, \<open>e.Equals(i)\<close> returns false: the type assertion
  yields \<open>ok = false\<close> and the function returns at once, whatever the helpers
  \<open>EqualPathNames\<close> and \<open>OptionsEqual\<close> would do.
\<close>

theorem Equals_other_type_false:
  "((\<forall>x. i \<noteq> SecretsEngineEntry x) \<longrightarrow>
      snd (assert_secretsengine_entry i) = False \<and>
      secretsengine_Equals EqualPathNames OptionsEqual se i = False) \<and>
   ((\<forall>x. i \<noteq> PolicyEntry x) \<longrightarrow>
      snd (assert_policy_entry i) = False \<and> policy_Equals pe i = False) \<and>
   ((\<forall>x. i \<noteq> AuditEntry x) \<longrightarrow>
      snd (assert_audit_entry i) = False \<and>
      audit_Equals EqualPathNames OptionsEqual ae i = False)"
  by (cases i)
    (simp_all add: secretsengine_Equals_def policy_Equals_def audit_Equals_def
      assert_secretsengine_entry_def assert_policy_entry_def assert_audit_entry_def)

theorem Equals_other_type_false_witness:
  "(\<forall>x. AuditEntry zero_audit_entry \<noteq> SecretsEngineEntry x) \<and>
   secretsengine_Equals (\<lambda>a b. True) (\<lambda>a b. True) zero_secretsengine_entry
     (AuditEntry zero_audit_entry) = False \<and>
   (\<forall>x. StringValue ''root'' \<noteq> PolicyEntry x) \<and>
   policy_Equals zero_policy_entry (StringValue ''root'') = False \<and>
   (\<forall>x. SecretsEngineEntry zero_secretsengine_entry \<noteq> AuditEntry x) \<and>
   audit_Equals (\<lambda>a b. True) (\<lambda>a b. True) zero_audit_entry
     (SecretsEngineEntry zero_secretsengine_entry) = False"
  using Equals_other_type_false
      [of "AuditEntry zero_audit_entry" "\<lambda>a b. True" "\<lambda>a b. True" zero_secretsengine_entry]
    Equals_other_type_false [of "StringValue ''root''" _ _ _ zero_policy_entry]
    Equals_other_type_false
      [of "SecretsEngineEntry zero_secretsengine_entry" "\<lambda>a b. True" "\<lambda>a b. True" _ _
        zero_audit_entry]
  by simp

text \<open>
  Claim C8. For policy entries \<open>d\<close> and \<open>o\<close>, \<open>d.Equals(o)\<close> holds iff the names are
  equal and the rules are the same string; so when the two have the same key (the name),
  they are equal, hence unchanged, iff the rules are identical.
\<close>

theorem policy_Equals_iff:
  "(policy_Equals d (PolicyEntry ob) \<longleftrightarrow> pol_Name d = pol_Name ob \<and> pol_Rules d = pol_Rules ob) \<and>
   (policy_Key d = policy_Key ob \<longrightarrow>
      (policy_Equals d (PolicyEntry ob) \<longleftrightarrow> pol_Rules d = pol_Rules ob))"
  by (simp add: policy_Equals_def assert_policy_entry_def policy_Key_def)

theorem policy_Equals_iff_witness:
  "policy_Key (zero_policy_entry\<lparr>pol_Name := ''p'', pol_Rules := ''path a''\<rparr>) =
   policy_Key (zero_policy_entry\<lparr>pol_Name := ''p'', pol_Rules := ''path b''\<rparr>) \<and>
   \<not> policy_Equals (zero_policy_entry\<lparr>pol_Name := ''p'', pol_Rules := ''path a''\<rparr>)
       (PolicyEntry (zero_policy_entry\<lparr>pol_Name := ''p'', pol_Rules := ''path b''\<rparr>)) \<and>
   policy_Equals (zero_policy_entry\<lparr>pol_Name := ''p'', pol_Rules := ''path a''\<rparr>)
     (PolicyEntry (zero_policy_entry\<lparr>pol_Name := ''p'', pol_Rules := ''path a'',
        pol_Description := ''other''\<rparr>))"
  using policy_Equals_iff
      [of "zero_policy_entry\<lparr>pol_Name := ''p'', pol_Rules := ''path a''\<rparr>"
          "zero_policy_entry\<lparr>pol_Name := ''p'', pol_Rules := ''path b''\<rparr>"]
    policy_Equals_iff
      [of "zero_policy_entry\<lparr>pol_Name := ''p'', pol_Rules := ''path a''\<rparr>"
          "zero_policy_entry\<lparr>pol_Name := ''p'', pol_Rules := ''path a'',
             pol_Description := ''other''\<rparr>"]
  by (simp add: policy_Key_def)

section \<open>Protected keys\<close>

text \<open>\<open>isDefaultMount\<close> accepts exactly the paths that start with one of the four prefixes.\<close>

lemma HasPrefix_iff: "HasPrefix s pre \<longleftrightarrow> (\<exists>rest. s = pre @ rest)"
proof
  assume "HasPrefix s pre"
  then have "take (length pre) s = pre" by (simp add: HasPrefix_def)
  then have "s = pre @ drop (length pre) s" by (metis append_take_drop_id)
  then show "\<exists>rest. s = pre @ rest" ..
next
  assume "\<exists>rest. s = pre @ rest"
  then show "HasPrefix s pre" by (auto simp: HasPrefix_def)
qed

lemma isDefaultMount_iff:
  "isDefaultMount path \<longleftrightarrow>
     (\<exists>rest. path = ''cubbyhole/'' @ rest \<or> path = ''identity/'' @ rest \<or>
             path = ''secret/'' @ rest \<or> path = ''sys/'' @ rest)"
  unfolding isDefaultMount_def HasPrefix_iff by auto

section \<open>The three modules\<close>

lemma fold_snoc_acc: "fold (\<lambda>x items. items @ [x]) xs acc = acc @ xs"
  by (induction xs arbitrary: acc) auto

lemma asItems_id: "asItems xs = xs"
  by (simp add: asItems_def fold_snoc_acc)

lemma fold_snoc: "fold (\<lambda>x t. t @ [g x]) xs tr = tr @ map g xs"
  by (induction xs arbitrary: tr) auto

lemma fold_snoc_if: "fold (\<lambda>x t. if c x then t @ [g x] else t) xs tr = tr @ map g (filter c xs)"
  by (induction xs arbitrary: tr) auto

lemma fold_snoc_unless:
  "fold (\<lambda>x t. if c x then t else t @ [g x]) xs tr = tr @ map g (filter (\<lambda>x. \<not> c x) xs)"
  by (induction xs arbitrary: tr) auto

lemma fold_concat:
  "(\<And>x t. f x t = t @ g x) \<Longrightarrow> fold f xs tr = tr @ concat (map g xs)"
  by (induction xs arbitrary: tr) auto

lemma slice_at_instancesToDesired:
  "slice_at (instancesToDesired address es m) a = slice_at m a @ filter (\<lambda>e. address e = a) es"
  by (induction es arbitrary: m) (auto simp: slice_at_def)

lemma desired_for_instance:
  "slice_at (instancesToDesired address es Map.empty) a = filter (\<lambda>e. address e = a) es"
  by (simp add: slice_at_instancesToDesired) (simp add: slice_at_def)

lemma set_permute: "set (permute cs xs) = set xs"
proof (induction cs arbitrary: xs)
  case Nil
  then show ?case by simp
next
  case (Cons c cs)
  show ?case
  proof (cases "xs = []")
    case True
    then show ?thesis by simp
  next
    case False
    let ?i = "c mod length xs"
    have i: "?i < length xs" using False by simp
    have split: "xs = take ?i xs @ xs ! ?i # drop (Suc ?i) xs"
      using i by (rule id_take_nth_drop)
    have "set (permute (c # cs) xs) = insert (xs ! ?i) (set (take ?i xs @ drop (Suc ?i) xs))"
      using False Cons.IH by (simp add: Let_def)
    also have "\<dots> = set (take ?i xs @ xs ! ?i # drop (Suc ?i) xs)" by simp
    also have "\<dots> = set xs" using split by simp
    finally show ?thesis .
  qed
qed

text \<open>The order input is no restriction: it yields permutations, and every permutation.\<close>

lemma mset_remove_nth:
  "i < length xs \<Longrightarrow> mset (take i xs @ drop (Suc i) xs) = mset xs - {#xs ! i#}"
proof -
  assume i: "i < length xs"
  have "xs = take i xs @ xs ! i # drop (Suc i) xs"
    using i by (rule id_take_nth_drop)
  then have "mset xs = mset (take i xs @ drop (Suc i) xs) + {#xs ! i#}"
    by (metis mset.simps(2) mset_append union_mset_add_mset_right add_mset_add_single)
  then show ?thesis by simp
qed

lemma permute_reaches:
  "mset ys = mset xs \<Longrightarrow> \<exists>cs. permute cs xs = ys"
proof (induction ys arbitrary: xs)
  case Nil
  then have "xs = []" by simp
  then have "permute [] xs = []" by simp
  then show ?case by blast
next
  case (Cons y ys)
  have "y \<in> set xs" using Cons.prems by (metis list.set_intros(1) set_mset_mset)
  then obtain i where i: "i < length xs" "xs ! i = y"
    by (auto simp: in_set_conv_nth)
  let ?rest = "take i xs @ drop (Suc i) xs"
  have "mset ?rest = mset xs - {#y#}"
    using mset_remove_nth [OF i(1)] i(2) by simp
  also have "\<dots> = mset ys" using Cons.prems [symmetric] by simp
  finally have "mset ys = mset ?rest" by simp
  from Cons.IH [OF this] obtain cs where cs: "permute cs ?rest = ys" by blast
  have ne: "xs \<noteq> []" using i(1) by auto
  have "permute (i # cs) xs = y # ys"
    using i cs ne by (simp add: Let_def)
  then show ?case by blast
qed

lemma mset_permute: "mset (permute cs xs) = mset xs"
proof (induction cs arbitrary: xs)
  case Nil
  then show ?case by simp
next
  case (Cons c cs)
  show ?case
  proof (cases "xs = []")
    case True
    then show ?thesis by simp
  next
    case False
    let ?i = "c mod length xs"
    have i: "?i < length xs" using False by simp
    have "xs ! ?i \<in># mset xs" using i by simp
    then show ?thesis
      using False Cons.IH [of "take ?i xs @ drop (Suc ?i) xs"] mset_remove_nth [OF i]
      by (simp add: Let_def)
  qed
qed

lemma secretsengine_reconcile_live:
  "secretsengine_reconcile diffItems desired existing False instance tr =
     tr @ (case diffItems (desired instance) (existing instance) of
             (toBeWritten, toBeDeleted, toBeUpdated) \<Rightarrow>
               map (\<lambda>ent. CallEnableSecretsEngine instance (se_Path ent)
                      \<lparr>mi_Type = se_Type ent, mi_Description = se_Description ent,
                       mi_Options = se_Options ent\<rparr>) toBeWritten @
               map (\<lambda>ent. CallUpdateSecretsEngine instance (se_Path ent)
                      \<lparr>mci_Description = Some (se_Description ent)\<rparr>) toBeUpdated @
               map (\<lambda>ent. CallDisableSecretsEngine instance (se_Path ent))
                 (filter (\<lambda>ent. \<not> isDefaultMount (se_Path ent)) toBeDeleted))"
  by (simp add: secretsengine_reconcile_def asItems_id fold_snoc fold_snoc_if Let_def
      split: prod.splits)

lemma secretsengine_reconcile_dry:
  "secretsengine_reconcile diffItems desired existing True instance tr =
     tr @ (case diffItems (desired instance) (existing instance) of
             (toBeWritten, toBeDeleted, toBeUpdated) \<Rightarrow>
               map (\<lambda>w. LogInfo ''[Dry Run] [Vault Secrets engine] secrets-engine to be enabled''
                      [(''path'', secretsengine_Key w), (''type'', se_Type w)]) toBeWritten @
               map (\<lambda>u. LogInfo ''[Dry Run] [Vault Secrets engine] secrets-engine to be updated''
                      [(''path'', secretsengine_Key u), (''type'', se_Type u)]) toBeUpdated @
               map (\<lambda>d. LogInfo ''[Dry Run] [Vault Secrets engine] secrets-engine to be disabled''
                      [(''path'', secretsengine_Key d), (''type'', se_Type d)])
                 (filter (\<lambda>d. \<not> isDefaultMount (secretsengine_Key d)) toBeDeleted))"
  by (simp add: secretsengine_reconcile_def asItems_id fold_snoc fold_snoc_if Let_def
      split: prod.splits)

lemma policy_reconcile_live:
  "policy_reconcile diffItems desired existing False instance tr =
     tr @ (case diffItems (desired instance) (existing instance) of
             (toBeWritten, toBeDeleted, toBeUpdated) \<Rightarrow>
               map (\<lambda>ent. CallPutVaultPolicy instance (pol_Name ent) (pol_Rules ent)) toBeWritten @
               map (\<lambda>ent. CallDeleteVaultPolicy instance (pol_Name ent))
                 (filter (\<lambda>ent. \<not> isDefaultPolicy (pol_Name ent)) toBeDeleted))"
  by (simp add: policy_reconcile_def asItems_id fold_snoc fold_snoc_unless Let_def
      split: prod.splits)

lemma policy_reconcile_dry:
  "policy_reconcile diffItems desired existing True instance tr =
     tr @ (case diffItems (desired instance) (existing instance) of
             (toBeWritten, toBeDeleted, toBeUpdated) \<Rightarrow>
               map (\<lambda>w. LogInfo ''[Dry Run] [Vault Policy] policy to be written''
                      [(''policy'', policy_Key w)]) toBeWritten @
               map (\<lambda>d. LogInfo ''[Dry Run] [Vault Policy] policy to be deleted''
                      [(''policy'', policy_Key d)])
                 (filter (\<lambda>d. \<not> isDefaultPolicy (policy_Key d)) toBeDeleted))"
  by (simp add: policy_reconcile_def asItems_id fold_snoc fold_snoc_unless Let_def
      split: prod.splits)

lemma fold_invariant:
  "P s \<Longrightarrow> (\<And>x t. x \<in> set xs \<Longrightarrow> P t \<Longrightarrow> P (f x t)) \<Longrightarrow> P (fold f xs s)"
  by (induction xs arbitrary: s) auto

lemma secretsengine_list_loop_trace:
  "secretsengine_list_loop L es m tr = (m', tr') \<Longrightarrow>
   (\<exists>evs. tr' = tr @ evs \<and>
          set evs \<subseteq> (\<lambda>e. CallListSecretsEngines (Address (se_Instance e))) ` set es) \<and>
   dom m' \<subseteq> dom m \<union> (\<lambda>e. Address (se_Instance e)) ` set es"
proof (induction es arbitrary: m tr)
  case Nil
  then show ?case by simp
next
  case (Cons e es)
  let ?a = "Address (se_Instance e)"
  show ?case
  proof (cases "m ?a")
    case (Some v)
    then have "secretsengine_list_loop L es m tr = (m', tr')"
      using Cons.prems by simp
    from Cons.IH [OF this] show ?thesis by auto
  next
    case None
    then have "secretsengine_list_loop L es (m(?a \<mapsto> L tr ?a)) (tr @ [CallListSecretsEngines ?a])
               = (m', tr')"
      using Cons.prems by simp
    from Cons.IH [OF this] show ?thesis by auto
  qed
qed

lemma secretsengine_existing_absent:
  "a \<notin> dom enabled \<Longrightarrow> secretsengine_existing enabled a = []"
  by (auto simp: secretsengine_existing_def slice_at_def split: option.splits)

text \<open>Every event a reconcile pass adds is a log line or a call against its instance.\<close>

lemma secretsengine_reconcile_events:
  "\<exists>evs. secretsengine_reconcile diffItems desired existing dryRun instance tr = tr @ evs \<and>
         (\<forall>e \<in> set evs. remote_instance e = Some instance \<or> remote_instance e = None) \<and>
         (\<forall>e \<in> set evs. \<forall>a. e \<noteq> CallAddInvalid a) \<and>
         (dryRun \<longrightarrow> (\<forall>e \<in> set evs. \<not> is_mutation e)) \<and>
         (\<forall>a p. CallDisableSecretsEngine a p \<in> set evs \<longrightarrow> \<not> isDefaultMount p) \<and>
         (diffItems (desired instance) (existing instance) = ([], [], []) \<longrightarrow> evs = [])"
proof (cases dryRun)
  case True
  then have dr: "dryRun = True" by simp
  show ?thesis
    unfolding dr secretsengine_reconcile_dry
    by (rule exI, rule conjI, rule refl) (auto split: prod.splits)
next
  case False
  then have dr: "dryRun = False" by simp
  show ?thesis
    unfolding dr secretsengine_reconcile_live
    by (rule exI, rule conjI, rule refl) (auto split: prod.splits)
qed

lemma fold_extends:
  assumes step: "\<And>x t. x \<in> set xs \<Longrightarrow> \<exists>evs. f x t = t @ evs \<and> (\<forall>e \<in> set evs. Q x e)"
  shows "\<exists>evs. fold f xs tr = tr @ evs \<and> (\<forall>e \<in> set evs. \<exists>x \<in> set xs. Q x e)"
  using step
proof (induction xs arbitrary: tr)
  case Nil
  then show ?case by simp
next
  case (Cons x xs)
  obtain evs1 where e1: "f x tr = tr @ evs1" "\<forall>e \<in> set evs1. Q x e"
    using Cons.prems [of x tr] by auto
  have "\<exists>evs. fold f xs (tr @ evs1) = (tr @ evs1) @ evs \<and> (\<forall>e \<in> set evs. \<exists>x \<in> set xs. Q x e)"
    by (rule Cons.IH) (use Cons.prems in auto)
  then obtain evs2 where e2: "fold f xs (tr @ evs1) = (tr @ evs1) @ evs2"
      "\<forall>e \<in> set evs2. \<exists>x \<in> set xs. Q x e"
    by blast
  have "fold f (x # xs) tr = tr @ (evs1 @ evs2)"
    using e1 e2 by simp
  moreover have "\<forall>e \<in> set (evs1 @ evs2). \<exists>y \<in> set (x # xs). Q y e"
    using e1 e2 by auto
  ultimately show ?case by blast
qed

lemma secretsengine_Apply_events:
  assumes ap: "secretsengine_Apply deps entriesBytes dryRun threadPoolSize = Inr tr"
  shows "\<exists>entries enabled.
           se_Unmarshal deps entriesBytes = Inr entries \<and>
           dom enabled \<subseteq> (\<lambda>x. Address (se_Instance x)) ` set entries \<and>
           (\<forall>e \<in> set tr.
              (\<exists>x \<in> set entries. e = CallListSecretsEngines (Address (se_Instance x))) \<or>
              (\<exists>instance \<in> set (se_InstanceAddresses deps).
                 secretsengine_pass_event deps entries enabled dryRun instance e))"
proof -
  obtain entries where un: "se_Unmarshal deps entriesBytes = Inr entries"
    using ap by (auto simp: secretsengine_Apply_def split: sum.splits)
  obtain enabled fetched
    where ll: "secretsengine_list_loop (se_ListSecretsEngines deps) entries Map.empty [] = (enabled, fetched)"
    by (cases "secretsengine_list_loop (se_ListSecretsEngines deps) entries Map.empty []") auto
  let ?desired = "slice_at (instancesToDesired (\<lambda>e. Address (se_Instance e)) entries Map.empty)"
  let ?f = "secretsengine_reconcile (se_DiffItems deps) ?desired (secretsengine_existing enabled) dryRun"
  have tr: "tr = fold ?f (se_InstanceAddresses deps) fetched"
    using ap un ll by (simp add: secretsengine_Apply_def Let_def)
  have fetched: "set fetched \<subseteq> (\<lambda>e. CallListSecretsEngines (Address (se_Instance e))) ` set entries"
    and dom: "dom enabled \<subseteq> (\<lambda>x. Address (se_Instance x)) ` set entries"
    using secretsengine_list_loop_trace [OF ll] by auto
  have step: "\<exists>evs. ?f i t = t @ evs \<and>
                (\<forall>e \<in> set evs. secretsengine_pass_event deps entries enabled dryRun i e)"
    for i t
    using secretsengine_reconcile_events
      [of "se_DiffItems deps" ?desired "secretsengine_existing enabled" dryRun i t]
    by (auto simp: secretsengine_pass_event_def desired_for_instance)
  obtain evs where evs: "tr = fetched @ evs"
    "\<forall>e \<in> set evs. \<exists>instance \<in> set (se_InstanceAddresses deps).
        secretsengine_pass_event deps entries enabled dryRun instance e"
    using fold_extends [of "se_InstanceAddresses deps" ?f
        "secretsengine_pass_event deps entries enabled dryRun" fetched] step tr
    by auto
  have "\<forall>e \<in> set tr.
          (\<exists>x \<in> set entries. e = CallListSecretsEngines (Address (se_Instance x))) \<or>
          (\<exists>instance \<in> set (se_InstanceAddresses deps).
             secretsengine_pass_event deps entries enabled dryRun instance e)"
    using evs fetched by auto
  then show ?thesis using un dom by blast
qed

lemma policy_list_loop_trace:
  "policy_list_loop L es names tr = (names', tr') \<Longrightarrow>
   (\<exists>evs. tr' = tr @ evs \<and>
          set evs \<subseteq> (\<lambda>e. CallListVaultPolicies (Address (pol_Instance e))) ` set es) \<and>
   fst ` set names' \<subseteq> fst ` set names \<union> (\<lambda>e. Address (pol_Instance e)) ` set es"
proof (induction es arbitrary: names tr)
  case Nil
  then show ?case by simp
next
  case (Cons e es)
  let ?a = "Address (pol_Instance e)"
  show ?case
  proof (cases "map_of names ?a")
    case (Some v)
    then have "policy_list_loop L es names tr = (names', tr')"
      using Cons.prems by simp
    from Cons.IH [OF this] show ?thesis by auto
  next
    case None
    then have "policy_list_loop L es (names @ [(?a, L tr ?a)]) (tr @ [CallListVaultPolicies ?a])
               = (names', tr')"
      using Cons.prems by simp
    from Cons.IH [OF this] show ?thesis by auto
  qed
qed

lemma policy_workers_trace:
  "fold (policy_worker G i) ns st = (existing', tr') \<Longrightarrow>
   (\<exists>evs. tr' = snd st @ evs \<and> (\<forall>e \<in> set evs. \<exists>n. e = CallGetVaultPolicy i n)) \<and>
   dom existing' \<subseteq> dom (fst st) \<union> {i}"
proof (induction ns arbitrary: st)
  case Nil
  then show ?case by (cases st) auto
next
  case (Cons n ns)
  obtain ex t where st: "st = (ex, t)" by (cases st)
  let ?st1 = "policy_worker G i n st"
  have s1: "snd ?st1 = t @ [CallGetVaultPolicy i n]" "dom (fst ?st1) = insert i (dom ex)"
    by (simp_all add: st policy_worker_def)
  have "fold (policy_worker G i) ns ?st1 = (existing', tr')"
    using Cons.prems by simp
  from Cons.IH [OF this] s1 show ?case
    by (auto simp: st)
qed

lemma policy_fan_out_trace:
  "policy_fan_out_loop G c n ps st = Some (existing', tr') \<Longrightarrow>
   (\<exists>evs. tr' = snd st @ evs \<and>
          (\<forall>e \<in> set evs. \<exists>i \<in> fst ` set ps. \<exists>n. e = CallGetVaultPolicy i n)) \<and>
   dom existing' \<subseteq> dom (fst st) \<union> fst ` set ps"
proof (induction ps arbitrary: st)
  case Nil
  then show ?case by (cases st) auto
next
  case (Cons p ps)
  obtain i ns where p: "p = (i, ns)" by (cases p)
  obtain ex1 t1 where st1: "policy_fan_out G c n p st = Some (ex1, t1)"
    using Cons.prems by (cases "policy_fan_out G c n p st") auto
  have one: "(\<exists>evs. t1 = snd st @ evs \<and> (\<forall>e \<in> set evs. \<exists>n. e = CallGetVaultPolicy i n)) \<and>
             dom ex1 \<subseteq> dom (fst st) \<union> {i}"
  proof (cases "ns = []")
    case True
    then show ?thesis using st1 by (auto simp: p policy_fan_out_def)
  next
    case False
    then have "fold (policy_worker G i) (permute (c i) ns) st = (ex1, t1)"
      using st1 by (simp add: p policy_fan_out_def split: if_splits)
    then show ?thesis by (rule policy_workers_trace)
  qed
  have "policy_fan_out_loop G c n ps (ex1, t1) = Some (existing', tr')"
    using Cons.prems st1 by simp
  from Cons.IH [OF this] have rest:
    "(\<exists>evs. tr' = t1 @ evs \<and>
          (\<forall>e \<in> set evs. \<exists>i \<in> fst ` set ps. \<exists>n. e = CallGetVaultPolicy i n)) \<and>
     dom existing' \<subseteq> dom ex1 \<union> fst ` set ps"
    by simp
  obtain evs1 where evs1: "t1 = snd st @ evs1" "\<forall>e \<in> set evs1. \<exists>n. e = CallGetVaultPolicy i n"
    using one by blast
  obtain evs2 where evs2: "tr' = t1 @ evs2"
    "\<forall>e \<in> set evs2. \<exists>i \<in> fst ` set ps. \<exists>n. e = CallGetVaultPolicy i n"
    using rest by blast
  have tr': "tr' = snd st @ (evs1 @ evs2)"
    using evs1 evs2 by simp
  have all: "\<forall>e \<in> set (evs1 @ evs2). \<exists>j \<in> fst ` set (p # ps). \<exists>n. e = CallGetVaultPolicy j n"
    using evs1(2) evs2(2) by (auto simp: p)
  have d1: "dom ex1 \<subseteq> dom (fst st) \<union> {i}" using one by blast
  have d2: "dom existing' \<subseteq> dom ex1 \<union> fst ` set ps" using rest by blast
  have dom: "dom existing' \<subseteq> dom (fst st) \<union> fst ` set (p # ps)"
    using d1 d2 by (simp add: p) blast
  show ?case using tr' all dom by blast
qed

lemma policy_fan_out_loop_proceeds:
  "1 \<le> n \<Longrightarrow> \<exists>st'. policy_fan_out_loop G c n ps st = Some st'"
  by (induction ps arbitrary: st) (auto simp: policy_fan_out_def split: prod.splits)

lemma policy_reconcile_events:
  "\<exists>evs. policy_reconcile diffItems desired existing dryRun i tr = tr @ evs \<and>
         (\<forall>e \<in> set evs. remote_instance e = Some i \<or> remote_instance e = None) \<and>
         (\<forall>e \<in> set evs. \<forall>a. e \<noteq> CallAddInvalid a) \<and>
         (dryRun \<longrightarrow> (\<forall>e \<in> set evs. \<not> is_mutation e)) \<and>
         (\<forall>a p. CallDeleteVaultPolicy a p \<in> set evs \<longrightarrow> \<not> isDefaultPolicy p) \<and>
         (diffItems (desired i) (existing i) = ([], [], []) \<longrightarrow> evs = [])"
proof (cases dryRun)
  case True
  then have dr: "dryRun = True" by simp
  show ?thesis
    unfolding dr policy_reconcile_dry
    by (rule exI, rule conjI, rule refl) (auto split: prod.splits)
next
  case False
  then have dr: "dryRun = False" by simp
  show ?thesis
    unfolding dr policy_reconcile_live
    by (rule exI, rule conjI, rule refl) (auto split: prod.splits)
qed

lemma policy_Apply_events:
  assumes ap: "policy_Apply deps entriesBytes dryRun threadPoolSize = Inr tr"
  shows "\<exists>entries existing.
           pol_Unmarshal deps entriesBytes = Inr entries \<and>
           dom existing \<subseteq> (\<lambda>x. Address (pol_Instance x)) ` set entries \<and>
           (\<forall>e \<in> set tr.
              (\<exists>x \<in> set entries. e = CallListVaultPolicies (Address (pol_Instance x))) \<or>
              (\<exists>x \<in> set entries. \<exists>n. e = CallGetVaultPolicy (Address (pol_Instance x)) n) \<or>
              (\<exists>i \<in> set (pol_InstanceAddresses deps).
                 policy_pass_event deps entries existing dryRun i e))"
proof -
  obtain entries where un: "pol_Unmarshal deps entriesBytes = Inr entries"
    using ap by (auto simp: policy_Apply_def split: sum.splits)
  obtain names tr1
    where ll: "policy_list_loop (pol_ListVaultPolicies deps) entries [] [] = (names, tr1)"
    by (cases "policy_list_loop (pol_ListVaultPolicies deps) entries [] []") auto
  let ?ps = "permute (pol_rangeOrder deps) names"
  obtain existing tr2
    where fo: "policy_fan_out_loop (pol_GetVaultPolicy deps) (pol_completion deps) threadPoolSize
                 ?ps (Map.empty, tr1) = Some (existing, tr2)"
    using ap un ll
    by (cases "policy_fan_out_loop (pol_GetVaultPolicy deps) (pol_completion deps) threadPoolSize
                 ?ps (Map.empty, tr1)") (auto simp: policy_Apply_def Let_def)
  let ?desired = "slice_at (instancesToDesired (\<lambda>e. Address (pol_Instance e)) entries Map.empty)"
  let ?f = "policy_reconcile (pol_DiffItems deps) ?desired (slice_at existing) dryRun"
  have tr: "tr = fold ?f (pol_InstanceAddresses deps) tr2"
    using ap un ll fo by (simp add: policy_Apply_def Let_def)
  have tr1: "set tr1 \<subseteq> (\<lambda>e. CallListVaultPolicies (Address (pol_Instance e))) ` set entries"
    and keys: "fst ` set names \<subseteq> (\<lambda>x. Address (pol_Instance x)) ` set entries"
    using policy_list_loop_trace [OF ll] by auto
  have keys': "fst ` set ?ps \<subseteq> (\<lambda>x. Address (pol_Instance x)) ` set entries"
    using keys by (simp add: set_permute)
  obtain evs2 where evs2: "tr2 = tr1 @ evs2"
    "\<forall>e \<in> set evs2. \<exists>i \<in> fst ` set ?ps. \<exists>n. e = CallGetVaultPolicy i n"
    and dom0: "dom existing \<subseteq> fst ` set ?ps"
    using policy_fan_out_trace [OF fo] by auto
  have dom: "dom existing \<subseteq> (\<lambda>x. Address (pol_Instance x)) ` set entries"
    using dom0 keys' by blast
  have gets: "\<forall>e \<in> set evs2. \<exists>x \<in> set entries. \<exists>n. e = CallGetVaultPolicy (Address (pol_Instance x)) n"
  proof
    fix e assume "e \<in> set evs2"
    then obtain i n where "i \<in> fst ` set ?ps" "e = CallGetVaultPolicy i n"
      using evs2(2) by blast
    moreover from this keys' obtain x where "x \<in> set entries" "i = Address (pol_Instance x)"
      by blast
    ultimately show "\<exists>x \<in> set entries. \<exists>n. e = CallGetVaultPolicy (Address (pol_Instance x)) n"
      by blast
  qed
  have step: "\<exists>evs. ?f i t = t @ evs \<and>
                (\<forall>e \<in> set evs. policy_pass_event deps entries existing dryRun i e)"
    for i t
    using policy_reconcile_events
      [of "pol_DiffItems deps" ?desired "slice_at existing" dryRun i t]
    by (auto simp: policy_pass_event_def desired_for_instance)
  obtain evs where evs: "tr = tr2 @ evs"
    "\<forall>e \<in> set evs. \<exists>i \<in> set (pol_InstanceAddresses deps).
        policy_pass_event deps entries existing dryRun i e"
    using fold_extends [of "pol_InstanceAddresses deps" ?f
        "policy_pass_event deps entries existing dryRun" tr2] step tr
    by auto
  have "\<forall>e \<in> set tr.
          (\<exists>x \<in> set entries. e = CallListVaultPolicies (Address (pol_Instance x))) \<or>
          (\<exists>x \<in> set entries. \<exists>n. e = CallGetVaultPolicy (Address (pol_Instance x)) n) \<or>
          (\<exists>i \<in> set (pol_InstanceAddresses deps).
             policy_pass_event deps entries existing dryRun i e)"
    using evs evs2(1) tr1 gets by auto
  then show ?thesis using un dom by blast
qed

lemma split_append:
  "t @ evs = pre @ e # rest \<Longrightarrow>
   (\<exists>us. t = pre @ e # us \<and> rest = us @ evs) \<or> (\<exists>us. pre = t @ us \<and> evs = us @ e # rest)"
  by (auto simp: append_eq_append_conv2 append_eq_Cons_conv)

lemma failures_marked_Nil: "failures_marked deps []"
  by (simp add: failures_marked_def)

lemma failures_marked_append:
  assumes t: "failures_marked deps t"
    and new: "\<And>us e rest i. evs = us @ e # rest \<Longrightarrow> audit_failure deps (t @ us) e = Some i \<Longrightarrow>
                \<exists>msg flds rest'. rest = LogInfo msg flds # CallAddInvalid i # rest'"
  shows "failures_marked deps (t @ evs)"
  unfolding failures_marked_def
proof (intro allI impI)
  fix pre e rest i
  assume eq: "t @ evs = pre @ e # rest" and f: "audit_failure deps pre e = Some i"
  from split_append [OF eq] show "\<exists>msg flds rest'. rest = LogInfo msg flds # CallAddInvalid i # rest'"
  proof
    assume "\<exists>us. t = pre @ e # us \<and> rest = us @ evs"
    then obtain us where us: "t = pre @ e # us" "rest = us @ evs" by blast
    then obtain msg flds rest' where "us = LogInfo msg flds # CallAddInvalid i # rest'"
      using t f unfolding failures_marked_def by blast
    then show ?thesis using us by simp
  next
    assume "\<exists>us. pre = t @ us \<and> evs = us @ e # rest"
    then obtain us where us: "pre = t @ us" "evs = us @ e # rest" by blast
    then show ?thesis using new [of us e rest i] f by simp
  qed
qed

lemma failures_marked_quiet:
  assumes t: "failures_marked deps t"
    and q: "\<And>e pre. e \<in> set evs \<Longrightarrow> audit_failure deps pre e = None"
  shows "failures_marked deps (t @ evs)"
proof (rule failures_marked_append [OF t])
  fix us e rest i
  assume "evs = us @ e # rest" and f: "audit_failure deps (t @ us) e = Some i"
  then have "e \<in> set evs" by simp
  then have "audit_failure deps (t @ us) e = None" by (rule q)
  then show "\<exists>msg flds rest'. rest = LogInfo msg flds # CallAddInvalid i # rest'"
    using f by simp
qed

lemma failures_marked_call:
  assumes t: "failures_marked deps t" and ok: "audit_failure deps t e = None"
  shows "failures_marked deps (t @ [e])"
proof (rule failures_marked_append [OF t])
  fix us e' rest i
  assume eq: "[e] = us @ e' # rest" and f: "audit_failure deps (t @ us) e' = Some i"
  from eq have "us = []" "e' = e" by (auto simp: Cons_eq_append_conv)
  then show "\<exists>msg flds rest'. rest = LogInfo msg flds # CallAddInvalid i # rest'"
    using f ok by simp
qed

lemma failures_marked_failed:
  assumes t: "failures_marked deps t"
    and who: "audit_failure deps t e = Some i \<or> audit_failure deps t e = None"
  shows "failures_marked deps (t @ [e, LogInfo msg flds, CallAddInvalid i])"
proof (rule failures_marked_append [OF t])
  fix us e' rest j
  assume eq: "[e, LogInfo msg flds, CallAddInvalid i] = us @ e' # rest"
    and f: "audit_failure deps (t @ us) e' = Some j"
  from eq consider "us = []" "e' = e" "rest = [LogInfo msg flds, CallAddInvalid i]"
    | "e' = LogInfo msg flds" | "e' = CallAddInvalid i"
    by (auto simp: Cons_eq_append_conv)
  then show "\<exists>msg flds rest'. rest = LogInfo msg flds # CallAddInvalid j # rest'"
  proof cases
    case 1
    then show ?thesis using f who by auto
  next
    case 2
    then show ?thesis using f by simp
  next
    case 3
    then show ?thesis using f by simp
  qed
qed

lemma audit_existing_map:
  "audit_existing enabledAudits =
     map (\<lambda>ka. \<lparr>aud_Path = au_Path (snd ka), aud_Type = au_Type (snd ka),
                 aud_Description = au_Description (snd ka), aud_Instance = zero_Instance,
                 aud_Options = au_Options (snd ka)\<rparr>) enabledAudits"
  unfolding audit_existing_def
  using fold_snoc [of _ enabledAudits "[]"] by simp

lemma audit_enable_step:
  "\<exists>evs. audit_enable E i ent t =
           t @ CallEnableAuditDevice i (aud_Path ent)
                 \<lparr>eao_Type = aud_Type ent, eao_Description = aud_Description ent,
                  eao_Options = aud_Options ent\<rparr> # evs \<and>
         (\<forall>e \<in> set evs. \<not> is_mutation e \<and> remote_instance e = None)"
  by (auto simp: audit_enable_def Let_def split: option.splits)

lemma audit_disable_step:
  "\<exists>evs. audit_disable D i ent t = t @ CallDisableAuditDevice i (aud_Path ent) # evs \<and>
         (\<forall>e \<in> set evs. \<not> is_mutation e \<and> remote_instance e = None)"
  by (auto simp: audit_disable_def split: option.splits)

lemma audit_enable_loop:
  "\<exists>evs. fold (audit_enable E i) ws t = t @ evs \<and>
         filter is_mutation evs =
           map (\<lambda>ent. CallEnableAuditDevice i (aud_Path ent)
                  \<lparr>eao_Type = aud_Type ent, eao_Description = aud_Description ent,
                   eao_Options = aud_Options ent\<rparr>) ws \<and>
         (\<forall>e \<in> set evs. remote_instance e = Some i \<or> remote_instance e = None)"
proof (induction ws arbitrary: t)
  case Nil
  then show ?case by simp
next
  case (Cons w ws)
  obtain evs1 where s: "audit_enable E i w t =
      t @ CallEnableAuditDevice i (aud_Path w)
            \<lparr>eao_Type = aud_Type w, eao_Description = aud_Description w,
             eao_Options = aud_Options w\<rparr> # evs1"
    "\<forall>e \<in> set evs1. \<not> is_mutation e \<and> remote_instance e = None"
    using audit_enable_step [of E i w t] by blast
  obtain evs2 where r: "fold (audit_enable E i) ws (audit_enable E i w t) =
      audit_enable E i w t @ evs2"
    "filter is_mutation evs2 =
       map (\<lambda>ent. CallEnableAuditDevice i (aud_Path ent)
              \<lparr>eao_Type = aud_Type ent, eao_Description = aud_Description ent,
               eao_Options = aud_Options ent\<rparr>) ws"
    "\<forall>e \<in> set evs2. remote_instance e = Some i \<or> remote_instance e = None"
    using Cons.IH [of "audit_enable E i w t"] by blast
  let ?c = "CallEnableAuditDevice i (aud_Path w)
            \<lparr>eao_Type = aud_Type w, eao_Description = aud_Description w,
             eao_Options = aud_Options w\<rparr>"
  have f1: "filter is_mutation evs1 = []" using s(2) by (simp add: filter_empty_conv)
  have "fold (audit_enable E i) (w # ws) t = t @ (?c # evs1 @ evs2)"
    using s(1) r(1) by simp
  moreover have "filter is_mutation (?c # evs1 @ evs2) =
       map (\<lambda>ent. CallEnableAuditDevice i (aud_Path ent)
              \<lparr>eao_Type = aud_Type ent, eao_Description = aud_Description ent,
               eao_Options = aud_Options ent\<rparr>) (w # ws)"
    using f1 r(2) by simp
  moreover have "\<forall>e \<in> set (?c # evs1 @ evs2). remote_instance e = Some i \<or> remote_instance e = None"
    using s(2) r(3) by auto
  ultimately show ?case by blast
qed

lemma audit_disable_loop:
  "\<exists>evs. fold (audit_disable D i) ds t = t @ evs \<and>
         filter is_mutation evs = map (\<lambda>ent. CallDisableAuditDevice i (aud_Path ent)) ds \<and>
         (\<forall>e \<in> set evs. remote_instance e = Some i \<or> remote_instance e = None)"
proof (induction ds arbitrary: t)
  case Nil
  then show ?case by simp
next
  case (Cons d ds)
  obtain evs1 where s: "audit_disable D i d t = t @ CallDisableAuditDevice i (aud_Path d) # evs1"
    "\<forall>e \<in> set evs1. \<not> is_mutation e \<and> remote_instance e = None"
    using audit_disable_step [of D i d t] by blast
  obtain evs2 where r: "fold (audit_disable D i) ds (audit_disable D i d t) =
      audit_disable D i d t @ evs2"
    "filter is_mutation evs2 = map (\<lambda>ent. CallDisableAuditDevice i (aud_Path ent)) ds"
    "\<forall>e \<in> set evs2. remote_instance e = Some i \<or> remote_instance e = None"
    using Cons.IH [of "audit_disable D i d t"] by blast
  let ?c = "CallDisableAuditDevice i (aud_Path d)"
  have f1: "filter is_mutation evs1 = []" using s(2) by (simp add: filter_empty_conv)
  have "fold (audit_disable D i) (d # ds) t = t @ (?c # evs1 @ evs2)"
    using s(1) r(1) by simp
  moreover have "filter is_mutation (?c # evs1 @ evs2) =
       map (\<lambda>ent. CallDisableAuditDevice i (aud_Path ent)) (d # ds)"
    using f1 r(2) by simp
  moreover have "\<forall>e \<in> set (?c # evs1 @ evs2). remote_instance e = Some i \<or> remote_instance e = None"
    using s(2) r(3) by auto
  ultimately show ?case by blast
qed

lemma audit_enable_marked:
  "failures_marked deps t \<Longrightarrow>
   failures_marked deps (audit_enable (aud_EnableAuditDevice deps) i ent t)"
proof -
  assume t: "failures_marked deps t"
  let ?opts = "\<lparr>eao_Type = aud_Type ent, eao_Description = aud_Description ent,
                eao_Options = aud_Options ent\<rparr>"
  show ?thesis
  proof (cases "aud_EnableAuditDevice deps t i (aud_Path ent) ?opts")
    case None
    then have "audit_failure deps t (CallEnableAuditDevice i (aud_Path ent) ?opts) = None"
      by simp
    from failures_marked_call [OF t this] None show ?thesis
      by (simp add: audit_enable_def Let_def)
  next
    case (Some err)
    then have "audit_failure deps t (CallEnableAuditDevice i (aud_Path ent) ?opts) = Some i"
      by simp
    then have "failures_marked deps
        (t @ [CallEnableAuditDevice i (aud_Path ent) ?opts,
              LogInfo ''[Vault Identity] failed to enable audit device''
                [(''error'', err), (''instance'', i), (''type'', aud_Type ent)],
              CallAddInvalid i])"
      by (intro failures_marked_failed [OF t]) simp
    then show ?thesis using Some
      by (simp add: audit_enable_def Let_def)
  qed
qed

lemma audit_disable_marked:
  "failures_marked deps t \<Longrightarrow>
   failures_marked deps (audit_disable (aud_DisableAuditDevice deps) i ent t)"
proof -
  assume t: "failures_marked deps t"
  show ?thesis
  proof (cases "aud_DisableAuditDevice deps t i (aud_Path ent)")
    case None
    then have "audit_failure deps t (CallDisableAuditDevice i (aud_Path ent)) = None"
      by simp
    from failures_marked_call [OF t this] None show ?thesis
      by (simp add: audit_disable_def)
  next
    case (Some err)
    then have "audit_failure deps t (CallDisableAuditDevice i (aud_Path ent)) = Some i"
      by simp
    then have "failures_marked deps
        (t @ [CallDisableAuditDevice i (aud_Path ent),
              LogInfo ''[Vault Identity] failed to disable audit device''
                [(''error'', err), (''instance'', i), (''type'', aud_Type ent)],
              CallAddInvalid i])"
      by (intro failures_marked_failed [OF t]) simp
    then show ?thesis using Some
      by (simp add: audit_disable_def)
  qed
qed

lemma audit_reconcile_list_failed:
  "aud_ListAuditDevices deps t i = Inl err \<Longrightarrow>
   audit_reconcile deps desired dryRun i t =
     t @ [CallListAuditDevices i,
          LogInfo ''[Vault Identity] failed to list audit device''
            [(''error'', err), (''instance'', i)],
          CallAddInvalid i]"
  by (simp add: audit_reconcile_def)

lemma audit_reconcile_dry:
  assumes "aud_ListAuditDevices deps t i = Inr enabledAudits"
    and "aud_DiffItems deps (desired i) (audit_existing enabledAudits) = (w, d, u)"
  shows "audit_reconcile deps desired True i t =
     t @ CallListAuditDevices i #
       map (\<lambda>w. LogInfo ''[Dry Run] [Vault Audit] audit device to be enabled''
              [(''path'', audit_Key w), (''instance'', i)]) w @
       map (\<lambda>d. LogInfo ''[Dry Run] [Vault Audit] audit device to be disabled''
              [(''path'', audit_Key d), (''instance'', i)]) d"
  using assms by (simp add: audit_reconcile_def asItems_id fold_snoc Let_def)

lemma audit_reconcile_live:
  assumes l: "aud_ListAuditDevices deps t i = Inr enabledAudits"
    and df: "aud_DiffItems deps (desired i) (audit_existing enabledAudits) = (w, d, u)"
  shows "\<exists>evs. audit_reconcile deps desired False i t = t @ CallListAuditDevices i # evs \<and>
           filter is_mutation evs =
             map (\<lambda>ent. CallEnableAuditDevice i (aud_Path ent)
                    \<lparr>eao_Type = aud_Type ent, eao_Description = aud_Description ent,
                     eao_Options = aud_Options ent\<rparr>) w @
             map (\<lambda>ent. CallDisableAuditDevice i (aud_Path ent)) d \<and>
           (\<forall>e \<in> set evs. remote_instance e = Some i \<or> remote_instance e = None)"
proof -
  let ?t0 = "t @ [CallListAuditDevices i]"
  let ?t1 = "fold (audit_enable (aud_EnableAuditDevice deps) i) w ?t0"
  have r: "audit_reconcile deps desired False i t =
           fold (audit_disable (aud_DisableAuditDevice deps) i) d ?t1"
    using l df by (simp add: audit_reconcile_def asItems_id Let_def)
  obtain evs1 where e1: "?t1 = ?t0 @ evs1"
    "filter is_mutation evs1 =
       map (\<lambda>ent. CallEnableAuditDevice i (aud_Path ent)
              \<lparr>eao_Type = aud_Type ent, eao_Description = aud_Description ent,
               eao_Options = aud_Options ent\<rparr>) w"
    "\<forall>e \<in> set evs1. remote_instance e = Some i \<or> remote_instance e = None"
    using audit_enable_loop [of "aud_EnableAuditDevice deps" i w ?t0] by blast
  obtain evs2 where e2: "fold (audit_disable (aud_DisableAuditDevice deps) i) d ?t1 = ?t1 @ evs2"
    "filter is_mutation evs2 = map (\<lambda>ent. CallDisableAuditDevice i (aud_Path ent)) d"
    "\<forall>e \<in> set evs2. remote_instance e = Some i \<or> remote_instance e = None"
    using audit_disable_loop [of "aud_DisableAuditDevice deps" i d ?t1] by blast
  have "audit_reconcile deps desired False i t = t @ CallListAuditDevices i # (evs1 @ evs2)"
    using r e1(1) e2(1) by simp
  moreover have "filter is_mutation (evs1 @ evs2) =
             map (\<lambda>ent. CallEnableAuditDevice i (aud_Path ent)
                    \<lparr>eao_Type = aud_Type ent, eao_Description = aud_Description ent,
                     eao_Options = aud_Options ent\<rparr>) w @
             map (\<lambda>ent. CallDisableAuditDevice i (aud_Path ent)) d"
    using e1(2) e2(2) by simp
  moreover have "\<forall>e \<in> set (evs1 @ evs2). remote_instance e = Some i \<or> remote_instance e = None"
    using e1(3) e2(3) by auto
  ultimately show ?thesis by blast
qed

lemma audit_reconcile_events:
  "\<exists>evs. audit_reconcile deps desired dryRun i t = t @ CallListAuditDevices i # evs \<and>
         (\<forall>e \<in> set evs. remote_instance e = Some i \<or> remote_instance e = None) \<and>
         (dryRun \<longrightarrow> (\<forall>e \<in> set evs. \<not> is_mutation e)) \<and>
         ((\<exists>err. aud_ListAuditDevices deps t i = Inl err) \<longrightarrow>
            (\<forall>e \<in> set evs. remote_instance e = None))"
proof (cases "aud_ListAuditDevices deps t i")
  case (Inl err)
  show ?thesis
    unfolding audit_reconcile_list_failed [OF Inl] by simp
next
  case (Inr enabledAudits)
  obtain w d u where df: "aud_DiffItems deps (desired i) (audit_existing enabledAudits) = (w, d, u)"
    by (cases "aud_DiffItems deps (desired i) (audit_existing enabledAudits)") auto
  show ?thesis
  proof (cases dryRun)
    case True
    then have dr: "dryRun = True" by simp
    show ?thesis
      unfolding dr audit_reconcile_dry [where desired = desired, OF Inr df] using Inr by auto
  next
    case False
    then have dr: "dryRun = False" by simp
    show ?thesis
      unfolding dr using audit_reconcile_live [where desired = desired, OF Inr df] Inr by auto
  qed
qed

lemma audit_reconcile_marked:
  assumes t: "failures_marked deps t"
  shows "failures_marked deps (audit_reconcile deps desired dryRun i t)"
proof (cases "aud_ListAuditDevices deps t i")
  case (Inl err)
  then have "audit_failure deps t (CallListAuditDevices i) = Some i" by simp
  then have "failures_marked deps
      (t @ [CallListAuditDevices i,
            LogInfo ''[Vault Identity] failed to list audit device''
              [(''error'', err), (''instance'', i)],
            CallAddInvalid i])"
    by (intro failures_marked_failed [OF t]) simp
  then show ?thesis
    unfolding audit_reconcile_list_failed [OF Inl] .
next
  case (Inr enabledAudits)
  obtain w d u where df: "aud_DiffItems deps (desired i) (audit_existing enabledAudits) = (w, d, u)"
    by (cases "aud_DiffItems deps (desired i) (audit_existing enabledAudits)") auto
  have "audit_failure deps t (CallListAuditDevices i) = None"
    using Inr by simp
  from failures_marked_call [OF t this]
  have t0: "failures_marked deps (t @ [CallListAuditDevices i])" .
  show ?thesis
  proof (cases dryRun)
    case True
    then have dr: "dryRun = True" by simp
    have "failures_marked deps ((t @ [CallListAuditDevices i]) @
       (map (\<lambda>w. LogInfo ''[Dry Run] [Vault Audit] audit device to be enabled''
              [(''path'', audit_Key w), (''instance'', i)]) w @
        map (\<lambda>d. LogInfo ''[Dry Run] [Vault Audit] audit device to be disabled''
              [(''path'', audit_Key d), (''instance'', i)]) d))"
      by (rule failures_marked_quiet [OF t0]) auto
    then show ?thesis
      unfolding dr audit_reconcile_dry [where desired = desired, OF Inr df] by simp
  next
    case False
    then have dr: "dryRun = False" by simp
    let ?t1 = "fold (audit_enable (aud_EnableAuditDevice deps) i) w (t @ [CallListAuditDevices i])"
    have r: "audit_reconcile deps desired False i t =
             fold (audit_disable (aud_DisableAuditDevice deps) i) d ?t1"
      using Inr df by (simp add: audit_reconcile_def asItems_id Let_def)
    have t1: "failures_marked deps ?t1"
      by (rule fold_invariant [where P = "failures_marked deps", OF t0]) (rule audit_enable_marked)
    have "failures_marked deps (fold (audit_disable (aud_DisableAuditDevice deps) i) d ?t1)"
      by (rule fold_invariant [where P = "failures_marked deps", OF t1]) (rule audit_disable_marked)
    then show ?thesis unfolding dr r .
  qed
qed

lemma desired_fun:
  "slice_at (instancesToDesired address es Map.empty) = (\<lambda>a. filter (\<lambda>e. address e = a) es)"
  by (rule ext) (rule desired_for_instance)

lemma audit_Apply_Inr:
  "aud_Unmarshal deps entriesBytes = Inr entries \<Longrightarrow>
   audit_Apply deps entriesBytes dryRun threadPoolSize =
     Inr (fold (audit_reconcile deps (\<lambda>a. filter (\<lambda>e. Address (aud_Instance e) = a) entries) dryRun)
            (aud_InstanceAddresses deps) []
          @ [CallRemoveInstanceFromReconciliation])"
  by (simp add: audit_Apply_def Let_def desired_fun)

lemma audit_instances_loop:
  "\<exists>evs. fold (audit_reconcile deps desired dryRun) xs t = t @ evs \<and>
         (\<forall>e \<in> set evs. remote_instance e \<in> Some ` set xs \<or> remote_instance e = None) \<and>
         (dryRun \<longrightarrow> (\<forall>e \<in> set evs. \<not> is_mutation e)) \<and>
         (\<forall>x \<in> set xs. CallListAuditDevices x \<in> set evs)"
proof (induction xs arbitrary: t)
  case Nil
  then show ?case by simp
next
  case (Cons x xs)
  let ?t1 = "audit_reconcile deps desired dryRun x t"
  obtain evs1 where e1: "?t1 = t @ CallListAuditDevices x # evs1"
    "\<forall>e \<in> set evs1. remote_instance e = Some x \<or> remote_instance e = None"
    "dryRun \<longrightarrow> (\<forall>e \<in> set evs1. \<not> is_mutation e)"
    using audit_reconcile_events [of deps desired dryRun x t] by blast
  obtain evs2 where e2: "fold (audit_reconcile deps desired dryRun) xs ?t1 = ?t1 @ evs2"
    "\<forall>e \<in> set evs2. remote_instance e \<in> Some ` set xs \<or> remote_instance e = None"
    "dryRun \<longrightarrow> (\<forall>e \<in> set evs2. \<not> is_mutation e)"
    "\<forall>x \<in> set xs. CallListAuditDevices x \<in> set evs2"
    using Cons.IH [of ?t1] by blast
  let ?evs = "CallListAuditDevices x # evs1 @ evs2"
  have "fold (audit_reconcile deps desired dryRun) (x # xs) t = t @ ?evs"
    using e1(1) e2(1) by simp
  moreover have "\<forall>e \<in> set ?evs. remote_instance e \<in> Some ` set (x # xs) \<or> remote_instance e = None"
    using e1(2) e2(2) by auto
  moreover have "dryRun \<longrightarrow> (\<forall>e \<in> set ?evs. \<not> is_mutation e)"
    using e1(3) e2(3) by auto
  moreover have "\<forall>y \<in> set (x # xs). CallListAuditDevices y \<in> set ?evs"
    using e2(4) by auto
  ultimately show ?case by blast
qed

lemma audit_instances_marked:
  "failures_marked deps t \<Longrightarrow> failures_marked deps (fold (audit_reconcile deps desired dryRun) xs t)"
  by (rule fold_invariant [where P = "failures_marked deps"]) (auto intro: audit_reconcile_marked)

lemma filter_other_instance:
  assumes "\<forall>e \<in> set evs. remote_instance e \<in> Some ` set xs \<or> remote_instance e = None"
    and "a \<notin> set xs"
  shows "filter (\<lambda>e. remote_instance e = Some a) evs = []"
  using assms by (auto simp: filter_empty_conv)

lemma audit_list_failure_isolated:
  assumes d: "distinct (pre @ a # post)"
    and f: "aud_ListAuditDevices deps (fold (audit_reconcile deps desired dryRun) pre []) a = Inl err"
  shows "filter (\<lambda>e. remote_instance e = Some a)
           (fold (audit_reconcile deps desired dryRun) (pre @ a # post) []) =
         [CallListAuditDevices a]"
proof -
  let ?f = "audit_reconcile deps desired dryRun"
  let ?t0 = "fold ?f pre []"
  let ?t1 = "?f a ?t0"
  have a_pre: "a \<notin> set pre" and a_post: "a \<notin> set post" using d by auto
  obtain evs0 where e0: "?t0 = [] @ evs0"
    "\<forall>e \<in> set evs0. remote_instance e \<in> Some ` set pre \<or> remote_instance e = None"
    using audit_instances_loop [of deps desired dryRun pre "[]"] by blast
  have t1: "?t1 = ?t0 @ [CallListAuditDevices a,
                LogInfo ''[Vault Identity] failed to list audit device''
                  [(''error'', err), (''instance'', a)],
                CallAddInvalid a]"
    by (rule audit_reconcile_list_failed [OF f])
  obtain evs2 where e2: "fold ?f post ?t1 = ?t1 @ evs2"
    "\<forall>e \<in> set evs2. remote_instance e \<in> Some ` set post \<or> remote_instance e = None"
    using audit_instances_loop [of deps desired dryRun post ?t1] by blast
  have whole: "fold ?f (pre @ a # post) [] =
      evs0 @ [CallListAuditDevices a,
                LogInfo ''[Vault Identity] failed to list audit device''
                  [(''error'', err), (''instance'', a)],
                CallAddInvalid a] @ evs2"
    using e0(1) t1 e2(1) by simp
  have f0: "filter (\<lambda>e. remote_instance e = Some a) evs0 = []"
    using e0(2) a_pre by (rule filter_other_instance)
  have f2: "filter (\<lambda>e. remote_instance e = Some a) evs2 = []"
    using e2(2) a_post by (rule filter_other_instance)
  show ?thesis
    unfolding whole using f0 f2 by simp
qed
























































text \<open>
  Claim C2. With \<open>dryRun = true\<close> the trace of \<open>Apply\<close> contains no enable, put, update,
  disable or delete call, in any of the three modules: besides the reads of the fetch
  phase it consists of log lines (and, in the audit module, of the marking of an instance
  whose listing failed).
\<close>

theorem dry_run_no_mutation:
  "(secretsengine_Apply sdeps b True n = Inr tr \<longrightarrow> (\<forall>e \<in> set tr. \<not> is_mutation e)) \<and>
   (policy_Apply pdeps b True n = Inr tr \<longrightarrow> (\<forall>e \<in> set tr. \<not> is_mutation e)) \<and>
   (audit_Apply adeps b True n = Inr tr \<longrightarrow> (\<forall>e \<in> set tr. \<not> is_mutation e))"
proof (intro conjI impI ballI)
  fix e assume ap: "secretsengine_Apply sdeps b True n = Inr tr" and e: "e \<in> set tr"
  from secretsengine_Apply_events [OF ap] e show "\<not> is_mutation e"
    by (auto simp: secretsengine_pass_event_def)
next
  fix e assume ap: "policy_Apply pdeps b True n = Inr tr" and e: "e \<in> set tr"
  from policy_Apply_events [OF ap] e show "\<not> is_mutation e"
    by (auto simp: policy_pass_event_def)
next
  fix e assume ap: "audit_Apply adeps b True n = Inr tr" and e: "e \<in> set tr"
  from ap obtain entries where un: "aud_Unmarshal adeps b = Inr entries"
    by (auto simp: audit_Apply_def split: sum.splits)
  let ?desired = "\<lambda>a. filter (\<lambda>e. Address (aud_Instance e) = a) entries"
  obtain evs where evs:
    "fold (audit_reconcile adeps ?desired True) (aud_InstanceAddresses adeps) [] = [] @ evs"
    "\<forall>e \<in> set evs. \<not> is_mutation e"
    using audit_instances_loop [of adeps ?desired True "aud_InstanceAddresses adeps" "[]"] by blast
  have "tr = evs @ [CallRemoveInstanceFromReconciliation]"
    using ap evs(1) audit_Apply_Inr [OF un, of True n] by simp
  then show "\<not> is_mutation e" using e evs(2) by auto
qed

text \<open>
  Claim C10. Let \<open>a\<close> be an address that no entry of the decoded input names. Then the
  trace of the secrets-engine module and of the policy module contains no remote
  operation against \<open>a\<close>: no list or get, no enable, put, update, disable or delete.
  The Diff Engine is a parameter here; what is used of it is that two empty inputs give
  three empty outputs.
\<close>

theorem no_desired_entries_untouched:
  "(se_DiffItems sdeps [] [] = ([], [], []) \<and> se_Unmarshal sdeps b = Inr sentries \<and>
    a \<notin> (\<lambda>x. Address (se_Instance x)) ` set sentries \<and>
    secretsengine_Apply sdeps b dryRun n = Inr tr \<longrightarrow>
      (\<forall>e \<in> set tr. remote_instance e \<noteq> Some a)) \<and>
   (pol_DiffItems pdeps [] [] = ([], [], []) \<and> pol_Unmarshal pdeps b = Inr pentries \<and>
    a \<notin> (\<lambda>x. Address (pol_Instance x)) ` set pentries \<and>
    policy_Apply pdeps b dryRun n = Inr tr \<longrightarrow>
      (\<forall>e \<in> set tr. remote_instance e \<noteq> Some a))"
proof (intro conjI impI ballI; elim conjE)
  fix e
  assume d0: "se_DiffItems sdeps [] [] = ([], [], [])" and un: "se_Unmarshal sdeps b = Inr sentries"
    and a: "a \<notin> (\<lambda>x. Address (se_Instance x)) ` set sentries"
    and ap: "secretsengine_Apply sdeps b dryRun n = Inr tr" and e: "e \<in> set tr"
  obtain entries enabled where ev:
    "se_Unmarshal sdeps b = Inr entries"
    "dom enabled \<subseteq> (\<lambda>x. Address (se_Instance x)) ` set entries"
    "\<forall>e \<in> set tr.
       (\<exists>x \<in> set entries. e = CallListSecretsEngines (Address (se_Instance x))) \<or>
       (\<exists>i \<in> set (se_InstanceAddresses sdeps). secretsengine_pass_event sdeps entries enabled dryRun i e)"
    using secretsengine_Apply_events [OF ap] by blast
  have same: "entries = sentries" using ev(1) un by simp
  have nofilter: "filter (\<lambda>x. Address (se_Instance x) = a) entries = []"
    using a same by (auto simp: filter_empty_conv)
  have noexist: "secretsengine_existing enabled a = []"
    using a ev(2) same by (intro secretsengine_existing_absent) blast
  show "remote_instance e \<noteq> Some a"
  proof
    assume ra: "remote_instance e = Some a"
    from ev(3) e consider
      x where "x \<in> set entries" "e = CallListSecretsEngines (Address (se_Instance x))"
      | i where "secretsengine_pass_event sdeps entries enabled dryRun i e"
      by blast
    then show False
    proof cases
      case 1
      then show False using ra a same by auto
    next
      case 2
      then have "i = a" using ra by (auto simp: secretsengine_pass_event_def)
      then show False using 2 nofilter noexist d0
        by (simp add: secretsengine_pass_event_def)
    qed
  qed
next
  fix e
  assume d0: "pol_DiffItems pdeps [] [] = ([], [], [])" and un: "pol_Unmarshal pdeps b = Inr pentries"
    and a: "a \<notin> (\<lambda>x. Address (pol_Instance x)) ` set pentries"
    and ap: "policy_Apply pdeps b dryRun n = Inr tr" and e: "e \<in> set tr"
  obtain entries existing where ev:
    "pol_Unmarshal pdeps b = Inr entries"
    "dom existing \<subseteq> (\<lambda>x. Address (pol_Instance x)) ` set entries"
    "\<forall>e \<in> set tr.
       (\<exists>x \<in> set entries. e = CallListVaultPolicies (Address (pol_Instance x))) \<or>
       (\<exists>x \<in> set entries. \<exists>n. e = CallGetVaultPolicy (Address (pol_Instance x)) n) \<or>
       (\<exists>i \<in> set (pol_InstanceAddresses pdeps). policy_pass_event pdeps entries existing dryRun i e)"
    using policy_Apply_events [OF ap] by blast
  have same: "entries = pentries" using ev(1) un by simp
  have nofilter: "filter (\<lambda>x. Address (pol_Instance x) = a) entries = []"
    using a same by (auto simp: filter_empty_conv)
  have "a \<notin> dom existing" using a ev(2) same by blast
  then have noexist: "slice_at existing a = []"
    by (auto simp: slice_at_def split: option.splits)
  show "remote_instance e \<noteq> Some a"
  proof
    assume ra: "remote_instance e = Some a"
    from ev(3) e consider
      x where "x \<in> set entries" "e = CallListVaultPolicies (Address (pol_Instance x))"
      | x nm where "x \<in> set entries" "e = CallGetVaultPolicy (Address (pol_Instance x)) nm"
      | i where "policy_pass_event pdeps entries existing dryRun i e"
      by blast
    then show False
    proof cases
      case 1
      then show False using ra a same by auto
    next
      case 2
      then show False using ra a same by auto
    next
      case 3
      then have "i = a" using ra by (auto simp: policy_pass_event_def)
      then show False using 3 nofilter noexist d0
        by (simp add: policy_pass_event_def)
    qed
  qed
qed

lemma secretsengine_Apply_live:
  assumes un: "se_Unmarshal deps b = Inr entries"
    and ll: "secretsengine_list_loop (se_ListSecretsEngines deps) entries Map.empty [] = (enabled, fetched)"
  shows "secretsengine_Apply deps b False n =
     Inr (fetched @ concat (map (\<lambda>i.
        case se_DiffItems deps (filter (\<lambda>e. Address (se_Instance e) = i) entries)
               (secretsengine_existing enabled i) of
          (toBeWritten, toBeDeleted, toBeUpdated) \<Rightarrow>
            map (\<lambda>ent. CallEnableSecretsEngine i (se_Path ent)
                   \<lparr>mi_Type = se_Type ent, mi_Description = se_Description ent,
                    mi_Options = se_Options ent\<rparr>) toBeWritten @
            map (\<lambda>ent. CallUpdateSecretsEngine i (se_Path ent)
                   \<lparr>mci_Description = Some (se_Description ent)\<rparr>) toBeUpdated @
            map (\<lambda>ent. CallDisableSecretsEngine i (se_Path ent))
              (filter (\<lambda>ent. \<not> isDefaultMount (se_Path ent)) toBeDeleted))
        (se_InstanceAddresses deps)))"
  using un ll
  by (simp add: secretsengine_Apply_def Let_def desired_fun
      fold_concat [OF secretsengine_reconcile_live])

lemma policy_Apply_live:
  assumes un: "pol_Unmarshal deps b = Inr entries"
    and ll: "policy_list_loop (pol_ListVaultPolicies deps) entries [] [] = (names, tr1)"
    and fo: "policy_fan_out_loop (pol_GetVaultPolicy deps) (pol_completion deps) n
               (permute (pol_rangeOrder deps) names) (Map.empty, tr1) = Some (existing, fetched)"
  shows "policy_Apply deps b False n =
     Inr (fetched @ concat (map (\<lambda>i.
        case pol_DiffItems deps (filter (\<lambda>e. Address (pol_Instance e) = i) entries)
               (slice_at existing i) of
          (toBeWritten, toBeDeleted, toBeUpdated) \<Rightarrow>
            map (\<lambda>ent. CallPutVaultPolicy i (pol_Name ent) (pol_Rules ent)) toBeWritten @
            map (\<lambda>ent. CallDeleteVaultPolicy i (pol_Name ent))
              (filter (\<lambda>ent. \<not> isDefaultPolicy (pol_Name ent)) toBeDeleted))
        (pol_InstanceAddresses deps)))"
  using un ll fo
  by (simp add: policy_Apply_def Let_def desired_fun
      fold_concat [OF policy_reconcile_live])

text \<open>
  Claim C5, as amended. In live mode the secrets-engine module issues, after its fetch
  phase and for each instance in turn, the enables of all to-create items, then the
  updates of all to-update items, then the disables of the to-delete items that are not
  default mounts. The policy module issues the puts of the to-create items and then the
  deletes of the to-delete items that are not default policies, and the audit module
  the enables and then the disables; these two bind the to-update output to \<open>_\<close> and
  issue nothing for it.
\<close>

theorem live_order:
  "(se_Unmarshal sdeps b = Inr sentries \<and>
    secretsengine_list_loop (se_ListSecretsEngines sdeps) sentries Map.empty [] = (enabled, sfetched)
    \<longrightarrow>
    secretsengine_Apply sdeps b False n =
     Inr (sfetched @ concat (map (\<lambda>i.
        case se_DiffItems sdeps (filter (\<lambda>e. Address (se_Instance e) = i) sentries)
               (secretsengine_existing enabled i) of
          (toBeWritten, toBeDeleted, toBeUpdated) \<Rightarrow>
            map (\<lambda>ent. CallEnableSecretsEngine i (se_Path ent)
                   \<lparr>mi_Type = se_Type ent, mi_Description = se_Description ent,
                    mi_Options = se_Options ent\<rparr>) toBeWritten @
            map (\<lambda>ent. CallUpdateSecretsEngine i (se_Path ent)
                   \<lparr>mci_Description = Some (se_Description ent)\<rparr>) toBeUpdated @
            map (\<lambda>ent. CallDisableSecretsEngine i (se_Path ent))
              (filter (\<lambda>ent. \<not> isDefaultMount (se_Path ent)) toBeDeleted))
        (se_InstanceAddresses sdeps)))) \<and>
   (pol_Unmarshal pdeps b = Inr pentries \<and>
    policy_list_loop (pol_ListVaultPolicies pdeps) pentries [] [] = (names, tr1) \<and>
    policy_fan_out_loop (pol_GetVaultPolicy pdeps) (pol_completion pdeps) n
      (permute (pol_rangeOrder pdeps) names) (Map.empty, tr1) = Some (existing, pfetched)
    \<longrightarrow>
    policy_Apply pdeps b False n =
     Inr (pfetched @ concat (map (\<lambda>i.
        case pol_DiffItems pdeps (filter (\<lambda>e. Address (pol_Instance e) = i) pentries)
               (slice_at existing i) of
          (toBeWritten, toBeDeleted, toBeUpdated) \<Rightarrow>
            map (\<lambda>ent. CallPutVaultPolicy i (pol_Name ent) (pol_Rules ent)) toBeWritten @
            map (\<lambda>ent. CallDeleteVaultPolicy i (pol_Name ent))
              (filter (\<lambda>ent. \<not> isDefaultPolicy (pol_Name ent)) toBeDeleted))
        (pol_InstanceAddresses pdeps)))) \<and>
   (aud_ListAuditDevices adeps t a = Inr enabledAudits \<and>
    aud_DiffItems adeps (desired a) (audit_existing enabledAudits) = (w, d, u)
    \<longrightarrow>
    (\<exists>evs. audit_reconcile adeps desired False a t = t @ CallListAuditDevices a # evs \<and>
       filter is_mutation evs =
         map (\<lambda>ent. CallEnableAuditDevice a (aud_Path ent)
                \<lparr>eao_Type = aud_Type ent, eao_Description = aud_Description ent,
                 eao_Options = aud_Options ent\<rparr>) w @
         map (\<lambda>ent. CallDisableAuditDevice a (aud_Path ent)) d))"
proof (intro conjI impI; elim conjE)
  assume "se_Unmarshal sdeps b = Inr sentries"
    "secretsengine_list_loop (se_ListSecretsEngines sdeps) sentries Map.empty [] = (enabled, sfetched)"
  then show "secretsengine_Apply sdeps b False n =
     Inr (sfetched @ concat (map (\<lambda>i.
        case se_DiffItems sdeps (filter (\<lambda>e. Address (se_Instance e) = i) sentries)
               (secretsengine_existing enabled i) of
          (toBeWritten, toBeDeleted, toBeUpdated) \<Rightarrow>
            map (\<lambda>ent. CallEnableSecretsEngine i (se_Path ent)
                   \<lparr>mi_Type = se_Type ent, mi_Description = se_Description ent,
                    mi_Options = se_Options ent\<rparr>) toBeWritten @
            map (\<lambda>ent. CallUpdateSecretsEngine i (se_Path ent)
                   \<lparr>mci_Description = Some (se_Description ent)\<rparr>) toBeUpdated @
            map (\<lambda>ent. CallDisableSecretsEngine i (se_Path ent))
              (filter (\<lambda>ent. \<not> isDefaultMount (se_Path ent)) toBeDeleted))
        (se_InstanceAddresses sdeps)))"
    by (rule secretsengine_Apply_live)
next
  assume "pol_Unmarshal pdeps b = Inr pentries"
    "policy_list_loop (pol_ListVaultPolicies pdeps) pentries [] [] = (names, tr1)"
    "policy_fan_out_loop (pol_GetVaultPolicy pdeps) (pol_completion pdeps) n
      (permute (pol_rangeOrder pdeps) names) (Map.empty, tr1) = Some (existing, pfetched)"
  then show "policy_Apply pdeps b False n =
     Inr (pfetched @ concat (map (\<lambda>i.
        case pol_DiffItems pdeps (filter (\<lambda>e. Address (pol_Instance e) = i) pentries)
               (slice_at existing i) of
          (toBeWritten, toBeDeleted, toBeUpdated) \<Rightarrow>
            map (\<lambda>ent. CallPutVaultPolicy i (pol_Name ent) (pol_Rules ent)) toBeWritten @
            map (\<lambda>ent. CallDeleteVaultPolicy i (pol_Name ent))
              (filter (\<lambda>ent. \<not> isDefaultPolicy (pol_Name ent)) toBeDeleted))
        (pol_InstanceAddresses pdeps)))"
    by (rule policy_Apply_live)
next
  assume l: "aud_ListAuditDevices adeps t a = Inr enabledAudits"
    and df: "aud_DiffItems adeps (desired a) (audit_existing enabledAudits) = (w, d, u)"
  from audit_reconcile_live [where desired = desired, OF l df]
  show "\<exists>evs. audit_reconcile adeps desired False a t = t @ CallListAuditDevices a # evs \<and>
       filter is_mutation evs =
         map (\<lambda>ent. CallEnableAuditDevice a (aud_Path ent)
                \<lparr>eao_Type = aud_Type ent, eao_Description = aud_Description ent,
                 eao_Options = aud_Options ent\<rparr>) w @
         map (\<lambda>ent. CallDisableAuditDevice a (aud_Path ent)) d"
    by blast
qed

text \<open>
  The audit package has no counterpart of \<open>isDefaultMount\<close> or \<open>isDefaultPolicy\<close>:
  it declares no built-in device, and a live pass disables every item of \<open>toBeDeleted\<close>.
\<close>

lemma audit_disables_all_toBeDeleted:
  assumes l: "aud_ListAuditDevices adeps t i = Inr enabledAudits"
    and df: "aud_DiffItems adeps (desired i) (audit_existing enabledAudits) = (w, d, u)"
    and ent: "ent \<in> set d"
  shows "CallDisableAuditDevice i (aud_Path ent) \<in> set (audit_reconcile adeps desired False i t)"
proof -
  obtain evs where evs: "audit_reconcile adeps desired False i t = t @ CallListAuditDevices i # evs"
    "filter is_mutation evs =
       map (\<lambda>ent. CallEnableAuditDevice i (aud_Path ent)
              \<lparr>eao_Type = aud_Type ent, eao_Description = aud_Description ent,
               eao_Options = aud_Options ent\<rparr>) w @
       map (\<lambda>ent. CallDisableAuditDevice i (aud_Path ent)) d"
    using audit_reconcile_live [where desired = desired, OF l df] by blast
  have "CallDisableAuditDevice i (aud_Path ent) \<in> set (filter is_mutation evs)"
    unfolding evs(2) using ent by simp
  then have "CallDisableAuditDevice i (aud_Path ent) \<in> set evs" by simp
  then show ?thesis
    unfolding evs(1) by simp
qed

text \<open>
  Claim C1. No delete is ever issued for a protected object: the trace of the
  secrets-engine module holds no disable for a path that \<open>isDefaultMount\<close> accepts
  (prefix \<open>cubbyhole/\<close>, \<open>identity/\<close>, \<open>secret/\<close> or \<open>sys/\<close>), and the trace of the
  policy module holds no delete for \<open>root\<close> or \<open>default\<close>, whatever the Diff Engine
  puts in \<open>toDelete\<close>. The code declares no built-in audit device, so for the audit
  module there is no protected object the claim could be about.
\<close>

theorem protected_deletes_filtered:
  "(secretsengine_Apply sdeps b dryRun n = Inr tr \<longrightarrow>
      (\<forall>a p. CallDisableSecretsEngine a p \<in> set tr \<longrightarrow> \<not> isDefaultMount p)) \<and>
   (policy_Apply pdeps b dryRun n = Inr tr \<longrightarrow>
      (\<forall>a p. CallDeleteVaultPolicy a p \<in> set tr \<longrightarrow> \<not> isDefaultPolicy p))"
proof (intro conjI impI allI)
  fix a p
  assume ap: "secretsengine_Apply sdeps b dryRun n = Inr tr"
    and m: "CallDisableSecretsEngine a p \<in> set tr"
  from secretsengine_Apply_events [OF ap] m show "\<not> isDefaultMount p"
    by (auto simp: secretsengine_pass_event_def)
next
  fix a p
  assume ap: "policy_Apply pdeps b dryRun n = Inr tr"
    and m: "CallDeleteVaultPolicy a p \<in> set tr"
  from policy_Apply_events [OF ap] m show "\<not> isDefaultPolicy p"
    by (auto simp: policy_pass_event_def)
qed

text \<open>
  Claim C4, as amended. In the audit module (the input decoding), \<open>Apply\<close> returns and
  in its trace: every remote call that failed is directly followed by its log line and
  by \<open>AddInvalid\<close> for its instance; every configured instance is listed, whatever
  failed before; and, the addresses being distinct, an instance whose listing failed
  receives no other remote operation. The secrets-engine and policy modules never call
  \<open>AddInvalid\<close>.
\<close>

theorem instance_failure_handling:
  "(aud_Unmarshal adeps b = Inr entries \<longrightarrow>
      (\<exists>tr. audit_Apply adeps b dryRun n = Inr tr \<and>
         (\<forall>pre e rest i. tr = pre @ e # rest \<and> audit_failure adeps pre e = Some i \<longrightarrow>
            (\<exists>msg flds rest'. rest = LogInfo msg flds # CallAddInvalid i # rest')) \<and>
         (\<forall>x \<in> set (aud_InstanceAddresses adeps). CallListAuditDevices x \<in> set tr) \<and>
         (\<forall>before a after err.
            aud_InstanceAddresses adeps = before @ a # after \<and>
            distinct (aud_InstanceAddresses adeps) \<and>
            aud_ListAuditDevices adeps
              (fold (audit_reconcile adeps
                       (\<lambda>a. filter (\<lambda>e. Address (aud_Instance e) = a) entries) dryRun) before [])
              a = Inl err \<longrightarrow>
            filter (\<lambda>e. remote_instance e = Some a) tr = [CallListAuditDevices a]))) \<and>
   (secretsengine_Apply sdeps b dryRun n = Inr tr1 \<longrightarrow> (\<forall>a. CallAddInvalid a \<notin> set tr1)) \<and>
   (policy_Apply pdeps b dryRun n = Inr tr2 \<longrightarrow> (\<forall>a. CallAddInvalid a \<notin> set tr2))"
proof (intro conjI impI allI)
  assume un: "aud_Unmarshal adeps b = Inr entries"
  let ?desired = "\<lambda>a. filter (\<lambda>e. Address (aud_Instance e) = a) entries"
  let ?f = "audit_reconcile adeps ?desired dryRun"
  let ?body = "fold ?f (aud_InstanceAddresses adeps) []"
  let ?tr = "?body @ [CallRemoveInstanceFromReconciliation]"
  have ap: "audit_Apply adeps b dryRun n = Inr ?tr"
    by (rule audit_Apply_Inr [OF un])
  have "failures_marked adeps ?body"
    by (rule audit_instances_marked [OF failures_marked_Nil])
  then have "failures_marked adeps ?tr"
    by (rule failures_marked_quiet) simp
  then have marked: "\<forall>pre e rest i. ?tr = pre @ e # rest \<and> audit_failure adeps pre e = Some i \<longrightarrow>
            (\<exists>msg flds rest'. rest = LogInfo msg flds # CallAddInvalid i # rest')"
    unfolding failures_marked_def by blast
  obtain evs where evs: "?body = [] @ evs"
    "\<forall>x \<in> set (aud_InstanceAddresses adeps). CallListAuditDevices x \<in> set evs"
    using audit_instances_loop [of adeps ?desired dryRun "aud_InstanceAddresses adeps" "[]"] by blast
  have listed: "\<forall>x \<in> set (aud_InstanceAddresses adeps). CallListAuditDevices x \<in> set ?tr"
    using evs by simp
  have isolated: "\<forall>before a after err.
            aud_InstanceAddresses adeps = before @ a # after \<and>
            distinct (aud_InstanceAddresses adeps) \<and>
            aud_ListAuditDevices adeps (fold ?f before []) a = Inl err \<longrightarrow>
            filter (\<lambda>e. remote_instance e = Some a) ?tr = [CallListAuditDevices a]"
  proof (intro allI impI, elim conjE)
    fix before a after err
    assume ia: "aud_InstanceAddresses adeps = before @ a # after"
      and d: "distinct (aud_InstanceAddresses adeps)"
      and f: "aud_ListAuditDevices adeps (fold ?f before []) a = Inl err"
    have "filter (\<lambda>e. remote_instance e = Some a) (fold ?f (before @ a # after) []) =
          [CallListAuditDevices a]"
      using d f unfolding ia by (rule audit_list_failure_isolated)
    then show "filter (\<lambda>e. remote_instance e = Some a) ?tr = [CallListAuditDevices a]"
      unfolding ia by simp
  qed
  show "\<exists>tr. audit_Apply adeps b dryRun n = Inr tr \<and>
         (\<forall>pre e rest i. tr = pre @ e # rest \<and> audit_failure adeps pre e = Some i \<longrightarrow>
            (\<exists>msg flds rest'. rest = LogInfo msg flds # CallAddInvalid i # rest')) \<and>
         (\<forall>x \<in> set (aud_InstanceAddresses adeps). CallListAuditDevices x \<in> set tr) \<and>
         (\<forall>before a after err.
            aud_InstanceAddresses adeps = before @ a # after \<and>
            distinct (aud_InstanceAddresses adeps) \<and>
            aud_ListAuditDevices adeps (fold ?f before []) a = Inl err \<longrightarrow>
            filter (\<lambda>e. remote_instance e = Some a) tr = [CallListAuditDevices a])"
    using ap marked listed isolated by blast
next
  fix a
  assume ap: "secretsengine_Apply sdeps b dryRun n = Inr tr1"
  from secretsengine_Apply_events [OF ap] show "CallAddInvalid a \<notin> set tr1"
    by (auto simp: secretsengine_pass_event_def)
next
  fix a
  assume ap: "policy_Apply pdeps b dryRun n = Inr tr2"
  from policy_Apply_events [OF ap] show "CallAddInvalid a \<notin> set tr2"
    by (auto simp: policy_pass_event_def)
qed

lemmas ex_defs =
  ex_se_deps_def ex_se_entries_def ex_mounts_def ex_pol_deps_def ex_pol_entries_def
  ex_aud_deps_def ex_aud_entries_def

lemmas eval_defs =
  Let_def slice_at_def asItems_def DiffItems_def zero_Instance_def
  secretsengine_existing_def secretsengine_reconcile_def secretsengine_Key_def
  secretsengine_Equals_def assert_secretsengine_entry_def
  policy_reconcile_def policy_Key_def policy_Equals_def assert_policy_entry_def
  policy_fan_out_def policy_worker_def
  audit_existing_def audit_reconcile_def audit_enable_def audit_disable_def audit_Key_def
  audit_Equals_def assert_audit_entry_def
  isDefaultMount_def isDefaultPolicy_def HasPrefix_def

lemma ex_se_live:
  "secretsengine_Apply ex_se_deps ''ok'' False 1 =
     Inr [CallListSecretsEngines ''i1'',
          CallEnableSecretsEngine ''i1'' ''new/''
            \<lparr>mi_Type = ''kv'', mi_Description = ''new secrets'', mi_Options = Map.empty\<rparr>,
          CallUpdateSecretsEngine ''i1'' ''kv/'' \<lparr>mci_Description = Some ''app secrets''\<rparr>,
          CallDisableSecretsEngine ''i1'' ''old/'']"
  by (simp add: secretsengine_Apply_def ex_defs eval_defs)

lemma ex_se_dry:
  "secretsengine_Apply ex_se_deps ''ok'' True 1 =
     Inr [CallListSecretsEngines ''i1'',
          LogInfo ''[Dry Run] [Vault Secrets engine] secrets-engine to be enabled''
            [(''path'', ''new/''), (''type'', ''kv'')],
          LogInfo ''[Dry Run] [Vault Secrets engine] secrets-engine to be updated''
            [(''path'', ''kv/''), (''type'', ''kv'')],
          LogInfo ''[Dry Run] [Vault Secrets engine] secrets-engine to be disabled''
            [(''path'', ''old/''), (''type'', ''kv'')]]"
  by (simp add: secretsengine_Apply_def ex_defs eval_defs)

lemma ex_pol_live:
  "policy_Apply ex_pol_deps ''ok'' False 1 =
     Inr [CallListVaultPolicies ''i1'',
          CallGetVaultPolicy ''i1'' ''old'',
          CallGetVaultPolicy ''i1'' ''app'',
          CallGetVaultPolicy ''i1'' ''root'',
          CallPutVaultPolicy ''i1'' ''new'' ''path n'',
          CallDeleteVaultPolicy ''i1'' ''old'']"
  by (simp add: policy_Apply_def ex_defs eval_defs)

lemma ex_pol_dry:
  "policy_Apply ex_pol_deps ''ok'' True 1 =
     Inr [CallListVaultPolicies ''i1'',
          CallGetVaultPolicy ''i1'' ''old'',
          CallGetVaultPolicy ''i1'' ''app'',
          CallGetVaultPolicy ''i1'' ''root'',
          LogInfo ''[Dry Run] [Vault Policy] policy to be written'' [(''policy'', ''new'')],
          LogInfo ''[Dry Run] [Vault Policy] policy to be deleted'' [(''policy'', ''old'')]]"
  by (simp add: policy_Apply_def ex_defs eval_defs)

lemma ex_pol_blocked:
  "policy_Apply ex_pol_deps ''ok'' False 0 = Inl Blocked"
  by (simp add: policy_Apply_def ex_defs eval_defs)

lemma ex_aud_live:
  "audit_Apply ex_aud_deps ''ok'' False 1 =
     Inr [CallListAuditDevices ''i1'',
          CallEnableAuditDevice ''i1'' ''a/''
            \<lparr>eao_Type = ''file'', eao_Description = [], eao_Options = Map.empty\<rparr>,
          LogInfo ''[Vault Identity] failed to enable audit device''
            [(''error'', ''permission denied''), (''instance'', ''i1''), (''type'', ''file'')],
          CallAddInvalid ''i1'',
          CallEnableAuditDevice ''i1'' ''b/''
            \<lparr>eao_Type = ''file'', eao_Description = [], eao_Options = Map.empty\<rparr>,
          CallDisableAuditDevice ''i1'' ''sys/'',
          CallListAuditDevices ''i2'',
          LogInfo ''[Vault Identity] failed to list audit device''
            [(''error'', ''connection refused''), (''instance'', ''i2'')],
          CallAddInvalid ''i2'',
          CallRemoveInstanceFromReconciliation]"
  by (simp add: audit_Apply_def ex_defs eval_defs)

lemma ex_aud_dry:
  "audit_Apply ex_aud_deps ''ok'' True 1 =
     Inr [CallListAuditDevices ''i1'',
          LogInfo ''[Dry Run] [Vault Audit] audit device to be enabled''
            [(''path'', ''a/''), (''instance'', ''i1'')],
          LogInfo ''[Dry Run] [Vault Audit] audit device to be enabled''
            [(''path'', ''b/''), (''instance'', ''i1'')],
          LogInfo ''[Dry Run] [Vault Audit] audit device to be disabled''
            [(''path'', ''sys/''), (''instance'', ''i1'')],
          CallListAuditDevices ''i2'',
          LogInfo ''[Vault Identity] failed to list audit device''
            [(''error'', ''connection refused''), (''instance'', ''i2'')],
          CallAddInvalid ''i2'',
          CallRemoveInstanceFromReconciliation]"
  by (simp add: audit_Apply_def ex_defs eval_defs)

section \<open>The theorems on the sample inputs\<close>






text \<open>The dry runs of the three modules on the sample inputs.\<close>

theorem dry_run_no_mutation_witness:
  "secretsengine_Apply ex_se_deps ''ok'' True 1 =
     Inr [CallListSecretsEngines ''i1'',
          LogInfo ''[Dry Run] [Vault Secrets engine] secrets-engine to be enabled''
            [(''path'', ''new/''), (''type'', ''kv'')],
          LogInfo ''[Dry Run] [Vault Secrets engine] secrets-engine to be updated''
            [(''path'', ''kv/''), (''type'', ''kv'')],
          LogInfo ''[Dry Run] [Vault Secrets engine] secrets-engine to be disabled''
            [(''path'', ''old/''), (''type'', ''kv'')]] \<and>
   policy_Apply ex_pol_deps ''ok'' True 1 =
     Inr [CallListVaultPolicies ''i1'',
          CallGetVaultPolicy ''i1'' ''old'',
          CallGetVaultPolicy ''i1'' ''app'',
          CallGetVaultPolicy ''i1'' ''root'',
          LogInfo ''[Dry Run] [Vault Policy] policy to be written'' [(''policy'', ''new'')],
          LogInfo ''[Dry Run] [Vault Policy] policy to be deleted'' [(''policy'', ''old'')]] \<and>
   audit_Apply ex_aud_deps ''ok'' True 1 =
     Inr [CallListAuditDevices ''i1'',
          LogInfo ''[Dry Run] [Vault Audit] audit device to be enabled''
            [(''path'', ''a/''), (''instance'', ''i1'')],
          LogInfo ''[Dry Run] [Vault Audit] audit device to be enabled''
            [(''path'', ''b/''), (''instance'', ''i1'')],
          LogInfo ''[Dry Run] [Vault Audit] audit device to be disabled''
            [(''path'', ''sys/''), (''instance'', ''i1'')],
          CallListAuditDevices ''i2'',
          LogInfo ''[Vault Identity] failed to list audit device''
            [(''error'', ''connection refused''), (''instance'', ''i2'')],
          CallAddInvalid ''i2'',
          CallRemoveInstanceFromReconciliation] \<and>
   filter is_mutation (projr (secretsengine_Apply ex_se_deps ''ok'' True 1)) = [] \<and>
   filter is_mutation (projr (policy_Apply ex_pol_deps ''ok'' True 1)) = [] \<and>
   filter is_mutation (projr (audit_Apply ex_aud_deps ''ok'' True 1)) = []"
proof -
  have s: "\<forall>e \<in> set (projr (secretsengine_Apply ex_se_deps ''ok'' True 1)). \<not> is_mutation e"
    using dry_run_no_mutation
      [of ex_se_deps "''ok''" 1 "projr (secretsengine_Apply ex_se_deps ''ok'' True 1)"]
      ex_se_dry
    by simp
  have p: "\<forall>e \<in> set (projr (policy_Apply ex_pol_deps ''ok'' True 1)). \<not> is_mutation e"
    using dry_run_no_mutation
      [of _ "''ok''" 1 "projr (policy_Apply ex_pol_deps ''ok'' True 1)" ex_pol_deps]
      ex_pol_dry
    by simp
  have a: "\<forall>e \<in> set (projr (audit_Apply ex_aud_deps ''ok'' True 1)). \<not> is_mutation e"
    using dry_run_no_mutation
      [of _ "''ok''" 1 "projr (audit_Apply ex_aud_deps ''ok'' True 1)" _ ex_aud_deps]
      ex_aud_dry
    by simp
  show ?thesis
    using s p a ex_se_dry ex_pol_dry ex_aud_dry
    by (simp only: filter_empty_conv)
qed

text \<open>No entry of the sample inputs names \<open>i2\<close>: nothing is issued against it.\<close>

theorem no_desired_entries_untouched_witness:
  "se_DiffItems ex_se_deps [] [] = ([], [], []) \<and>
   se_Unmarshal ex_se_deps ''ok'' = Inr ex_se_entries \<and>
   ''i2'' \<notin> (\<lambda>x. Address (se_Instance x)) ` set ex_se_entries \<and>
   secretsengine_Apply ex_se_deps ''ok'' False 1 =
     Inr [CallListSecretsEngines ''i1'',
          CallEnableSecretsEngine ''i1'' ''new/''
            \<lparr>mi_Type = ''kv'', mi_Description = ''new secrets'', mi_Options = Map.empty\<rparr>,
          CallUpdateSecretsEngine ''i1'' ''kv/'' \<lparr>mci_Description = Some ''app secrets''\<rparr>,
          CallDisableSecretsEngine ''i1'' ''old/''] \<and>
   filter (\<lambda>e. remote_instance e = Some ''i2'')
     (projr (secretsengine_Apply ex_se_deps ''ok'' False 1)) = [] \<and>
   pol_DiffItems ex_pol_deps [] [] = ([], [], []) \<and>
   pol_Unmarshal ex_pol_deps ''ok'' = Inr ex_pol_entries \<and>
   ''i2'' \<notin> (\<lambda>x. Address (pol_Instance x)) ` set ex_pol_entries \<and>
   policy_Apply ex_pol_deps ''ok'' False 1 =
     Inr [CallListVaultPolicies ''i1'',
          CallGetVaultPolicy ''i1'' ''old'',
          CallGetVaultPolicy ''i1'' ''app'',
          CallGetVaultPolicy ''i1'' ''root'',
          CallPutVaultPolicy ''i1'' ''new'' ''path n'',
          CallDeleteVaultPolicy ''i1'' ''old''] \<and>
   filter (\<lambda>e. remote_instance e = Some ''i2'')
     (projr (policy_Apply ex_pol_deps ''ok'' False 1)) = []"
proof -
  have s1: "se_DiffItems ex_se_deps [] [] = ([], [], [])"
    and s2: "se_Unmarshal ex_se_deps ''ok'' = Inr ex_se_entries"
    and s3: "''i2'' \<notin> (\<lambda>x. Address (se_Instance x)) ` set ex_se_entries"
    by (simp_all add: ex_se_deps_def ex_se_entries_def DiffItems_def)
  have p1: "pol_DiffItems ex_pol_deps [] [] = ([], [], [])"
    and p2: "pol_Unmarshal ex_pol_deps ''ok'' = Inr ex_pol_entries"
    and p3: "''i2'' \<notin> (\<lambda>x. Address (pol_Instance x)) ` set ex_pol_entries"
    by (simp_all add: ex_pol_deps_def ex_pol_entries_def DiffItems_def)
  have s4: "secretsengine_Apply ex_se_deps ''ok'' False 1 =
            Inr (projr (secretsengine_Apply ex_se_deps ''ok'' False 1))"
    by (simp add: ex_se_live)
  have p4: "policy_Apply ex_pol_deps ''ok'' False 1 =
            Inr (projr (policy_Apply ex_pol_deps ''ok'' False 1))"
    by (simp add: ex_pol_live)
  have s: "\<forall>e \<in> set (projr (secretsengine_Apply ex_se_deps ''ok'' False 1)).
             remote_instance e \<noteq> Some ''i2''"
    using no_desired_entries_untouched
      [of ex_se_deps "''ok''" ex_se_entries "''i2''" False 1
          "projr (secretsengine_Apply ex_se_deps ''ok'' False 1)"]
      s1 s2 s3 s4
    by blast
  have p: "\<forall>e \<in> set (projr (policy_Apply ex_pol_deps ''ok'' False 1)).
             remote_instance e \<noteq> Some ''i2''"
    using no_desired_entries_untouched
      [of _ "''ok''" _ "''i2''" False 1
          "projr (policy_Apply ex_pol_deps ''ok'' False 1)" ex_pol_deps ex_pol_entries]
      p1 p2 p3 p4
    by blast
  show ?thesis
    using s p s1 s2 s3 p1 p2 p3 ex_se_live ex_pol_live
    by (simp only: filter_empty_conv) blast
qed

text \<open>The live runs on the sample inputs: creates, then updates (secrets engines only), then deletes.\<close>

theorem live_order_witness:
  "se_Unmarshal ex_se_deps ''ok'' = Inr ex_se_entries \<and>
   secretsengine_list_loop (se_ListSecretsEngines ex_se_deps) ex_se_entries Map.empty [] =
     ([''i1'' \<mapsto> ex_mounts], [CallListSecretsEngines ''i1'']) \<and>
   secretsengine_Apply ex_se_deps ''ok'' False 1 =
     Inr [CallListSecretsEngines ''i1'',
          CallEnableSecretsEngine ''i1'' ''new/''
            \<lparr>mi_Type = ''kv'', mi_Description = ''new secrets'', mi_Options = Map.empty\<rparr>,
          CallUpdateSecretsEngine ''i1'' ''kv/'' \<lparr>mci_Description = Some ''app secrets''\<rparr>,
          CallDisableSecretsEngine ''i1'' ''old/''] \<and>
   pol_Unmarshal ex_pol_deps ''ok'' = Inr ex_pol_entries \<and>
   policy_list_loop (pol_ListVaultPolicies ex_pol_deps) ex_pol_entries [] [] =
     ([(''i1'', [''app'', ''root'', ''old''])], [CallListVaultPolicies ''i1'']) \<and>
   map_option snd
     (policy_fan_out_loop (pol_GetVaultPolicy ex_pol_deps) (pol_completion ex_pol_deps) 1
        (permute (pol_rangeOrder ex_pol_deps) [(''i1'', [''app'', ''root'', ''old''])])
        (Map.empty, [CallListVaultPolicies ''i1''])) =
     Some [CallListVaultPolicies ''i1'', CallGetVaultPolicy ''i1'' ''old'',
           CallGetVaultPolicy ''i1'' ''app'', CallGetVaultPolicy ''i1'' ''root''] \<and>
   policy_Apply ex_pol_deps ''ok'' False 1 =
     Inr [CallListVaultPolicies ''i1'',
          CallGetVaultPolicy ''i1'' ''old'',
          CallGetVaultPolicy ''i1'' ''app'',
          CallGetVaultPolicy ''i1'' ''root'',
          CallPutVaultPolicy ''i1'' ''new'' ''path n'',
          CallDeleteVaultPolicy ''i1'' ''old''] \<and>
   isl (aud_ListAuditDevices ex_aud_deps [] ''i1'') = False \<and>
   filter is_mutation
     (audit_reconcile ex_aud_deps (\<lambda>a. filter (\<lambda>e. Address (aud_Instance e) = a) ex_aud_entries)
        False ''i1'' []) =
     [CallEnableAuditDevice ''i1'' ''a/''
        \<lparr>eao_Type = ''file'', eao_Description = [], eao_Options = Map.empty\<rparr>,
      CallEnableAuditDevice ''i1'' ''b/''
        \<lparr>eao_Type = ''file'', eao_Description = [], eao_Options = Map.empty\<rparr>,
      CallDisableAuditDevice ''i1'' ''sys/'']"
proof -
  let ?loop = "policy_fan_out_loop (pol_GetVaultPolicy ex_pol_deps) (pol_completion ex_pol_deps) 1
          (permute (pol_rangeOrder ex_pol_deps) [(''i1'', [''app'', ''root'', ''old''])])
          (Map.empty, [CallListVaultPolicies ''i1''])"
  let ?existing = "fst (the ?loop)"
  let ?fetched = "snd (the ?loop)"
  let ?desired = "\<lambda>a. filter (\<lambda>e. Address (aud_Instance e) = a) ex_aud_entries"
  let ?enabled = "[(''sys/'', \<lparr>au_Path = ''sys/'', au_Type = ''file'', au_Description = [],
                               au_Options = Map.empty\<rparr>)]"
  obtain w d u where df:
    "aud_DiffItems ex_aud_deps (?desired ''i1'') (audit_existing ?enabled) = (w, d, u)"
    by (cases "aud_DiffItems ex_aud_deps (?desired ''i1'') (audit_existing ?enabled)") auto
  have wd: "w = ex_aud_entries"
    "d = [\<lparr>aud_Path = ''sys/'', aud_Type = ''file'', aud_Description = [],
           aud_Instance = zero_Instance, aud_Options = Map.empty\<rparr>]"
    using df by (simp_all add: ex_defs eval_defs)
  have s2: "se_Unmarshal ex_se_deps ''ok'' = Inr ex_se_entries"
    and s3: "secretsengine_list_loop (se_ListSecretsEngines ex_se_deps) ex_se_entries Map.empty [] =
     ([''i1'' \<mapsto> ex_mounts], [CallListSecretsEngines ''i1''])"
    by (simp_all add: ex_se_deps_def ex_se_entries_def)
  have p2: "pol_Unmarshal ex_pol_deps ''ok'' = Inr ex_pol_entries"
    and p3: "policy_list_loop (pol_ListVaultPolicies ex_pol_deps) ex_pol_entries [] [] =
     ([(''i1'', [''app'', ''root'', ''old''])], [CallListVaultPolicies ''i1''])"
    by (simp_all add: ex_pol_deps_def ex_pol_entries_def)
  have p4: "?loop = Some (?existing, ?fetched)"
    using policy_fan_out_loop_proceeds
      [of 1 "pol_GetVaultPolicy ex_pol_deps" "pol_completion ex_pol_deps"
          "permute (pol_rangeOrder ex_pol_deps) [(''i1'', [''app'', ''root'', ''old''])]"
          "(Map.empty, [CallListVaultPolicies ''i1''])"]
    by auto
  have a2: "aud_ListAuditDevices ex_aud_deps [] ''i1'' = Inr ?enabled"
    by (simp add: ex_aud_deps_def)
  note T = live_order
      [of ex_se_deps "''ok''" ex_se_entries "[''i1'' \<mapsto> ex_mounts]" "[CallListSecretsEngines ''i1'']"
          1 ex_pol_deps ex_pol_entries "[(''i1'', [''app'', ''root'', ''old''])]"
          "[CallListVaultPolicies ''i1'']" ?existing ?fetched ex_aud_deps "[]" "''i1''"
          ?enabled ?desired w d u]
  from T a2 df obtain evs where evs:
    "audit_reconcile ex_aud_deps ?desired False ''i1'' [] = [] @ CallListAuditDevices ''i1'' # evs"
    "filter is_mutation evs =
         map (\<lambda>ent. CallEnableAuditDevice ''i1'' (aud_Path ent)
                \<lparr>eao_Type = aud_Type ent, eao_Description = aud_Description ent,
                 eao_Options = aud_Options ent\<rparr>) w @
         map (\<lambda>ent. CallDisableAuditDevice ''i1'' (aud_Path ent)) d"
    by blast
  have aud: "filter is_mutation (audit_reconcile ex_aud_deps ?desired False ''i1'' []) =
     [CallEnableAuditDevice ''i1'' ''a/''
        \<lparr>eao_Type = ''file'', eao_Description = [], eao_Options = Map.empty\<rparr>,
      CallEnableAuditDevice ''i1'' ''b/''
        \<lparr>eao_Type = ''file'', eao_Description = [], eao_Options = Map.empty\<rparr>,
      CallDisableAuditDevice ''i1'' ''sys/'']"
    unfolding evs(1) using evs(2) by (simp add: wd ex_aud_entries_def)
  have fetched: "map_option snd ?loop =
     Some [CallListVaultPolicies ''i1'', CallGetVaultPolicy ''i1'' ''old'',
           CallGetVaultPolicy ''i1'' ''app'', CallGetVaultPolicy ''i1'' ''root'']"
    by (simp add: ex_pol_deps_def eval_defs)
  have se: "secretsengine_Apply ex_se_deps ''ok'' False 1 =
     Inr [CallListSecretsEngines ''i1'',
          CallEnableSecretsEngine ''i1'' ''new/''
            \<lparr>mi_Type = ''kv'', mi_Description = ''new secrets'', mi_Options = Map.empty\<rparr>,
          CallUpdateSecretsEngine ''i1'' ''kv/'' \<lparr>mci_Description = Some ''app secrets''\<rparr>,
          CallDisableSecretsEngine ''i1'' ''old/'']"
    using T [THEN conjunct1] s2 s3 by (simp add: ex_defs eval_defs)
  have pol: "policy_Apply ex_pol_deps ''ok'' False 1 =
     Inr [CallListVaultPolicies ''i1'',
          CallGetVaultPolicy ''i1'' ''old'',
          CallGetVaultPolicy ''i1'' ''app'',
          CallGetVaultPolicy ''i1'' ''root'',
          CallPutVaultPolicy ''i1'' ''new'' ''path n'',
          CallDeleteVaultPolicy ''i1'' ''old'']"
    using T [THEN conjunct2, THEN conjunct1] p2 p3 p4 by (simp add: ex_defs eval_defs)
  show ?thesis
    using s2 s3 p2 p3 fetched a2 aud se pol by simp
qed

text \<open>
  On the sample inputs the mount \<open>sys/\<close> and the policy \<open>root\<close> are observed and not
  desired; they are kept, \<open>old/\<close> and \<open>old\<close> are removed.
\<close>

theorem protected_deletes_filtered_witness:
  "secretsengine_Apply ex_se_deps ''ok'' False 1 =
     Inr [CallListSecretsEngines ''i1'',
          CallEnableSecretsEngine ''i1'' ''new/''
            \<lparr>mi_Type = ''kv'', mi_Description = ''new secrets'', mi_Options = Map.empty\<rparr>,
          CallUpdateSecretsEngine ''i1'' ''kv/'' \<lparr>mci_Description = Some ''app secrets''\<rparr>,
          CallDisableSecretsEngine ''i1'' ''old/''] \<and>
   isDefaultMount ''old/'' = False \<and>
   isDefaultMount ''sys/'' \<and>
   policy_Apply ex_pol_deps ''ok'' False 1 =
     Inr [CallListVaultPolicies ''i1'',
          CallGetVaultPolicy ''i1'' ''old'',
          CallGetVaultPolicy ''i1'' ''app'',
          CallGetVaultPolicy ''i1'' ''root'',
          CallPutVaultPolicy ''i1'' ''new'' ''path n'',
          CallDeleteVaultPolicy ''i1'' ''old''] \<and>
   isDefaultPolicy ''old'' = False \<and>
   isDefaultPolicy ''root''"
proof -
  note T = protected_deletes_filtered
      [of ex_se_deps "''ok''" False 1 "projr (secretsengine_Apply ex_se_deps ''ok'' False 1)"]
  note P = protected_deletes_filtered
      [of _ "''ok''" False 1 "projr (policy_Apply ex_pol_deps ''ok'' False 1)" ex_pol_deps]
  have m: "isDefaultMount ''old/'' = False"
    using T [THEN conjunct1] ex_se_live by simp
  have p: "isDefaultPolicy ''old'' = False"
    using P [THEN conjunct2] ex_pol_live by simp
  have s: "isDefaultMount ''sys/''" "isDefaultPolicy ''root''"
    by (simp_all add: isDefaultMount_def isDefaultPolicy_def HasPrefix_def)
  show ?thesis
    using m p s ex_se_live ex_pol_live by simp
qed

text \<open>
  Against claim C5 as stated: the policy \<open>app\<close> is desired with rules \<open>path a\<close> and
  observed with rules \<open>path b\<close>; the Diff Engine puts it in \<open>toUpdate\<close>; the live run of
  the policy module issues no call for it.
\<close>

theorem policy_update_not_applied_counterexample:
  "DiffItems policy_Key (\<lambda>d ob. policy_Equals d (PolicyEntry ob))
     ex_pol_entries
     [\<lparr>pol_Name = ''old'', pol_Rules = ''path x'', pol_Type = [],
       pol_Instance = zero_Instance, pol_Description = []\<rparr>,
      \<lparr>pol_Name = ''app'', pol_Rules = ''path b'', pol_Type = [],
       pol_Instance = zero_Instance, pol_Description = []\<rparr>,
      \<lparr>pol_Name = ''root'', pol_Rules = ''path x'', pol_Type = [],
       pol_Instance = zero_Instance, pol_Description = []\<rparr>] =
     ([\<lparr>pol_Name = ''new'', pol_Rules = ''path n'', pol_Type = [],
        pol_Instance = \<lparr>Address = ''i1''\<rparr>, pol_Description = []\<rparr>],
      [\<lparr>pol_Name = ''old'', pol_Rules = ''path x'', pol_Type = [],
        pol_Instance = zero_Instance, pol_Description = []\<rparr>,
       \<lparr>pol_Name = ''root'', pol_Rules = ''path x'', pol_Type = [],
        pol_Instance = zero_Instance, pol_Description = []\<rparr>],
      [\<lparr>pol_Name = ''app'', pol_Rules = ''path a'', pol_Type = [],
        pol_Instance = \<lparr>Address = ''i1''\<rparr>, pol_Description = []\<rparr>]) \<and>
   policy_Apply ex_pol_deps ''ok'' False 1 =
     Inr [CallListVaultPolicies ''i1'',
          CallGetVaultPolicy ''i1'' ''old'',
          CallGetVaultPolicy ''i1'' ''app'',
          CallGetVaultPolicy ''i1'' ''root'',
          CallPutVaultPolicy ''i1'' ''new'' ''path n'',
          CallDeleteVaultPolicy ''i1'' ''old''] \<and>
   CallPutVaultPolicy ''i1'' ''app'' ''path a'' \<notin> set (projr (policy_Apply ex_pol_deps ''ok'' False 1))"
  by (simp add: ex_pol_live) (simp add: ex_defs eval_defs)

text \<open>
  Against claim C4 as stated: enabling \<open>a/\<close> on \<open>i1\<close> fails and \<open>i1\<close> is marked
  invalid; the same pass then enables \<open>b/\<close> and disables \<open>sys/\<close> on \<open>i1\<close>.
\<close>

theorem audit_continues_after_failed_enable_counterexample:
  "audit_failure ex_aud_deps [CallListAuditDevices ''i1'']
     (CallEnableAuditDevice ''i1'' ''a/''
        \<lparr>eao_Type = ''file'', eao_Description = [], eao_Options = Map.empty\<rparr>) = Some ''i1'' \<and>
   audit_Apply ex_aud_deps ''ok'' False 1 =
     Inr ([CallListAuditDevices ''i1'',
           CallEnableAuditDevice ''i1'' ''a/''
             \<lparr>eao_Type = ''file'', eao_Description = [], eao_Options = Map.empty\<rparr>,
           LogInfo ''[Vault Identity] failed to enable audit device''
             [(''error'', ''permission denied''), (''instance'', ''i1''), (''type'', ''file'')],
           CallAddInvalid ''i1''] @
          [CallEnableAuditDevice ''i1'' ''b/''
             \<lparr>eao_Type = ''file'', eao_Description = [], eao_Options = Map.empty\<rparr>,
           CallDisableAuditDevice ''i1'' ''sys/''] @
          [CallListAuditDevices ''i2'',
           LogInfo ''[Vault Identity] failed to list audit device''
             [(''error'', ''connection refused''), (''instance'', ''i2'')],
           CallAddInvalid ''i2'',
           CallRemoveInstanceFromReconciliation])"
  by (simp add: ex_aud_live) (simp add: ex_aud_deps_def)

text \<open>The live run of the audit module on the sample input, with a failing enable on \<open>i1\<close> and a failing list on \<open>i2\<close>.\<close>

theorem instance_failure_handling_witness:
  "aud_Unmarshal ex_aud_deps ''ok'' = Inr ex_aud_entries \<and>
   audit_Apply ex_aud_deps ''ok'' False 1 =
     Inr ([CallListAuditDevices ''i1''] @
          CallEnableAuditDevice ''i1'' ''a/''
            \<lparr>eao_Type = ''file'', eao_Description = [], eao_Options = Map.empty\<rparr> #
          [LogInfo ''[Vault Identity] failed to enable audit device''
             [(''error'', ''permission denied''), (''instance'', ''i1''), (''type'', ''file'')],
           CallAddInvalid ''i1'',
           CallEnableAuditDevice ''i1'' ''b/''
             \<lparr>eao_Type = ''file'', eao_Description = [], eao_Options = Map.empty\<rparr>,
           CallDisableAuditDevice ''i1'' ''sys/'',
           CallListAuditDevices ''i2'',
           LogInfo ''[Vault Identity] failed to list audit device''
             [(''error'', ''connection refused''), (''instance'', ''i2'')],
           CallAddInvalid ''i2'',
           CallRemoveInstanceFromReconciliation]) \<and>
   audit_failure ex_aud_deps [CallListAuditDevices ''i1'']
     (CallEnableAuditDevice ''i1'' ''a/''
        \<lparr>eao_Type = ''file'', eao_Description = [], eao_Options = Map.empty\<rparr>) = Some ''i1'' \<and>
   CallListAuditDevices ''i2'' \<in> set (projr (audit_Apply ex_aud_deps ''ok'' False 1)) \<and>
   aud_InstanceAddresses ex_aud_deps = [''i1''] @ ''i2'' # [] \<and>
   distinct (aud_InstanceAddresses ex_aud_deps) \<and>
   aud_ListAuditDevices ex_aud_deps
     (fold (audit_reconcile ex_aud_deps
              (\<lambda>a. filter (\<lambda>e. Address (aud_Instance e) = a) ex_aud_entries) False) [''i1''] [])
     ''i2'' = Inl ''connection refused'' \<and>
   filter (\<lambda>e. remote_instance e = Some ''i2'') (projr (audit_Apply ex_aud_deps ''ok'' False 1)) =
     [CallListAuditDevices ''i2''] \<and>
   CallAddInvalid ''i1'' \<notin> set (projr (secretsengine_Apply ex_se_deps ''ok'' False 1)) \<and>
   CallAddInvalid ''i1'' \<notin> set (projr (policy_Apply ex_pol_deps ''ok'' False 1))"
proof -
  let ?desired = "\<lambda>a. filter (\<lambda>e. Address (aud_Instance e) = a) ex_aud_entries"
  let ?opts = "\<lparr>eao_Type = ''file'', eao_Description = [], eao_Options = Map.empty\<rparr>"
  let ?rest = "[LogInfo ''[Vault Identity] failed to enable audit device''
             [(''error'', ''permission denied''), (''instance'', ''i1''), (''type'', ''file'')],
           CallAddInvalid ''i1'',
           CallEnableAuditDevice ''i1'' ''b/'' ?opts,
           CallDisableAuditDevice ''i1'' ''sys/'',
           CallListAuditDevices ''i2'',
           LogInfo ''[Vault Identity] failed to list audit device''
             [(''error'', ''connection refused''), (''instance'', ''i2'')],
           CallAddInvalid ''i2'',
           CallRemoveInstanceFromReconciliation]"
  let ?TR = "[CallListAuditDevices ''i1''] @ CallEnableAuditDevice ''i1'' ''a/'' ?opts # ?rest"
  have un: "aud_Unmarshal ex_aud_deps ''ok'' = Inr ex_aud_entries"
    by (simp add: ex_aud_deps_def)
  have run: "audit_Apply ex_aud_deps ''ok'' False 1 = Inr ?TR"
    by (simp add: ex_aud_live)
  have fail1: "audit_failure ex_aud_deps [CallListAuditDevices ''i1'']
                 (CallEnableAuditDevice ''i1'' ''a/'' ?opts) = Some ''i1''"
    by (simp add: ex_aud_deps_def)
  have ia: "aud_InstanceAddresses ex_aud_deps = [''i1''] @ ''i2'' # []"
    and dist: "distinct (aud_InstanceAddresses ex_aud_deps)"
    by (simp_all add: ex_aud_deps_def)
  have fail2: "aud_ListAuditDevices ex_aud_deps
     (fold (audit_reconcile ex_aud_deps ?desired False) [''i1''] []) ''i2'' = Inl ''connection refused''"
    by (simp add: ex_aud_deps_def)
  have srun: "secretsengine_Apply ex_se_deps ''ok'' False 1 =
              Inr (projr (secretsengine_Apply ex_se_deps ''ok'' False 1))"
    by (simp add: ex_se_live)
  have prun: "policy_Apply ex_pol_deps ''ok'' False 1 =
              Inr (projr (policy_Apply ex_pol_deps ''ok'' False 1))"
    by (simp add: ex_pol_live)
  note T = instance_failure_handling
      [of ex_aud_deps "''ok''" ex_aud_entries False 1 ex_se_deps
          "projr (secretsengine_Apply ex_se_deps ''ok'' False 1)" ex_pol_deps
          "projr (policy_Apply ex_pol_deps ''ok'' False 1)"]
  from T un obtain tr where tr: "audit_Apply ex_aud_deps ''ok'' False 1 = Inr tr"
    and marked: "\<forall>pre e rest i. tr = pre @ e # rest \<and> audit_failure ex_aud_deps pre e = Some i \<longrightarrow>
            (\<exists>msg flds rest'. rest = LogInfo msg flds # CallAddInvalid i # rest')"
    and listed: "\<forall>x \<in> set (aud_InstanceAddresses ex_aud_deps). CallListAuditDevices x \<in> set tr"
    and isolated: "\<forall>before a after err.
            aud_InstanceAddresses ex_aud_deps = before @ a # after \<and>
            distinct (aud_InstanceAddresses ex_aud_deps) \<and>
            aud_ListAuditDevices ex_aud_deps
              (fold (audit_reconcile ex_aud_deps ?desired False) before []) a = Inl err \<longrightarrow>
            filter (\<lambda>e. remote_instance e = Some a) tr = [CallListAuditDevices a]"
    by blast
  have tr_eq: "tr = ?TR" using tr run by simp
  have m: "\<exists>msg flds rest'. ?rest = LogInfo msg flds # CallAddInvalid ''i1'' # rest'"
    using marked tr_eq fail1 by blast
  have l: "CallListAuditDevices ''i2'' \<in> set tr"
    using listed ia by simp
  have i: "filter (\<lambda>e. remote_instance e = Some ''i2'') tr = [CallListAuditDevices ''i2'']"
    using isolated ia dist fail2 by blast
  have s: "CallAddInvalid ''i1'' \<notin> set (projr (secretsengine_Apply ex_se_deps ''ok'' False 1))"
    using T srun by blast
  have p: "CallAddInvalid ''i1'' \<notin> set (projr (policy_Apply ex_pol_deps ''ok'' False 1))"
    using T prun by blast
  have proj: "projr (audit_Apply ex_aud_deps ''ok'' False 1) = tr"
    using tr by simp
  show ?thesis
    unfolding proj using un run fail1 l ia dist fail2 i s p by blast
qed

end
